theory Spec2Isabelle
  imports Complex_Main "HOL-Library.Word"
begin

section \<open>JavaScript values\<close>

text \<open>
  The standardizer of \<^verbatim>\<open>lib/api/dsl/transform/standardize.js\<close> works on untyped
  JavaScript values. Numbers are IEEE doubles; the code only compares them and tests them
  for truthiness, so a finite double is represented by the rational it denotes (both
  zeroes by \<open>Finite 0\<close>), next to the three special values.
  An object is the list of its own enumerable properties in the order of
  \<^verbatim>\<open>Object.keys\<close>; a well-formed object has distinct keys.
  \<open>JThis\<close> is the Standardizer instance itself, which one inherited method can hand back.
\<close>

datatype jnum = NaN | MinusInfinity | Finite rat | Infinity

datatype jv =
    JUndefined
  | JNull
  | JBool bool
  | JNum jnum
  | JStr string
  | JArr "jv list"
  | JObj "(string \<times> jv) list"
  | JThis

datatype error =
    BadRequestError string
  | TypeError
  | RangeError
  | ExternalError string

text \<open>
  What a call of a method yields: a promise that resolves, a promise that rejects, or an
  exception thrown before any promise is returned. A plain (non-promise) return value is
  represented by \<open>Resolved\<close>: every consumer in the file adopts values and promises alike.
\<close>

datatype 'a outcome = Resolved 'a | Rejected error | Thrown error

text \<open>\<^verbatim>\<open>p.then(f)\<close>: an exception thrown inside the callback rejects the chain.\<close>

fun andThen :: "'a outcome \<Rightarrow> ('a \<Rightarrow> 'b outcome) \<Rightarrow> 'b outcome" where
  "andThen (Resolved v) f = (case f v of Thrown e \<Rightarrow> Rejected e | r \<Rightarrow> r)"
| "andThen (Rejected e) f = Rejected e"
| "andThen (Thrown e) f = Thrown e"

fun typeof :: "jv \<Rightarrow> string" where
  "typeof JUndefined = ''undefined''"
| "typeof JNull = ''object''"
| "typeof (JBool b) = ''boolean''"
| "typeof (JNum n) = ''number''"
| "typeof (JStr s) = ''string''"
| "typeof (JArr xs) = ''object''"
| "typeof (JObj kvs) = ''object''"
| "typeof JThis = ''object''"

fun truthy :: "jv \<Rightarrow> bool" where
  "truthy JUndefined = False"
| "truthy JNull = False"
| "truthy (JBool b) = b"
| "truthy (JNum n) = (n \<noteq> NaN \<and> n \<noteq> Finite 0)"
| "truthy (JStr s) = (s \<noteq> [])"
| "truthy (JArr xs) = True"
| "truthy (JObj kvs) = True"
| "truthy JThis = True"

fun isArray :: "jv \<Rightarrow> bool" where
  "isArray (JArr xs) = True"
| "isArray v = False"

fun elems :: "jv \<Rightarrow> jv list" where
  "elems (JArr xs) = xs"
| "elems v = []"

text \<open>Decimal rendering of an array index, as \<^verbatim>\<open>Object.keys\<close> gives it.\<close>

definition digit :: "nat \<Rightarrow> char" where
  "digit d = char_of (48 + d)"

fun show_nat :: "nat \<Rightarrow> string" where
  "show_nat n = (if n < 10 then [digit n] else show_nat (n div 10) @ [digit (n mod 10)])"

text \<open>
  \<^verbatim>\<open>Object.keys(v)\<close> for a value that is neither \<^verbatim>\<open>undefined\<close> nor \<^verbatim>\<open>null\<close> (on those
  it throws; the callers below test for it where the code can get there).
\<close>

fun keys :: "jv \<Rightarrow> string list" where
  "keys (JObj kvs) = map fst kvs"
| "keys (JArr xs) = map show_nat [0..<length xs]"
| "keys (JStr s) = map show_nat [0..<length s]"
| "keys v = []"

fun nullish :: "jv \<Rightarrow> bool" where
  "nullish JUndefined = True"
| "nullish JNull = True"
| "nullish v = False"

text \<open>
  \<^verbatim>\<open>v[k]\<close> for a property name \<open>k\<close> that is not inherited (all the names the code reads
  from data are of this kind) and a \<open>v\<close> that is not nullish: the own property, or
  \<^verbatim>\<open>undefined\<close>.
\<close>

fun getProp :: "jv \<Rightarrow> string \<Rightarrow> jv" where
  "getProp (JObj kvs) k = (case map_of kvs k of Some v \<Rightarrow> v | None \<Rightarrow> JUndefined)"
| "getProp v k = JUndefined"

text \<open>\<^verbatim>\<open>list[0]\<close> of a list of keys, read as a property name.\<close>

fun first_key :: "string list \<Rightarrow> string" where
  "first_key [] = ''undefined''"
| "first_key (k # ks) = k"

section \<open>Generic validation primitives\<close>

definition onlyOneFieldAttribute :: "string list \<Rightarrow> string \<Rightarrow> string list outcome" where
  "onlyOneFieldAttribute fieldsList keyword =
     (if length fieldsList > 1
      then Rejected (BadRequestError (''\"'' @ keyword @ ''\" can contain only one attribute''))
      else Resolved fieldsList)"

definition requireAttribute :: "jv \<Rightarrow> string \<Rightarrow> string \<Rightarrow> unit outcome" where
  "requireAttribute flt keyword attribute =
     (if nullish flt then Thrown TypeError
      else if \<not> truthy (getProp flt attribute)
      then Rejected (BadRequestError
             (''\"'' @ keyword @ ''\" requires the following attribute: '' @ attribute))
      else Resolved ())"

definition mustBeNonEmptyObject :: "jv \<Rightarrow> string \<Rightarrow> string list outcome" where
  "mustBeNonEmptyObject flt keyword =
     (if \<not> truthy flt \<or> typeof flt \<noteq> ''object'' \<or> isArray flt \<or> length (keys flt) = 0
      then Rejected (BadRequestError (''\"'' @ keyword @ ''\" must be a non-empty object''))
      else Resolved (keys flt))"

definition mustBeString :: "jv \<Rightarrow> string \<Rightarrow> string \<Rightarrow> unit outcome" where
  "mustBeString flt keyword field =
     (if nullish flt then Thrown TypeError
      else if typeof (getProp flt field) \<noteq> ''string''
      then Rejected (BadRequestError
             (''Attribute \"'' @ field @ ''\" in \"'' @ keyword @ ''\" must be a string''))
      else Resolved ())"

definition mustBeNonEmptyArray :: "jv \<Rightarrow> string \<Rightarrow> string \<Rightarrow> unit outcome" where
  "mustBeNonEmptyArray flt keyword field =
     (if nullish flt then Thrown TypeError
      else if \<not> isArray (getProp flt field)
      then Rejected (BadRequestError
             (''Attribute \"'' @ field @ ''\" in \"'' @ keyword @ ''\" must be an array''))
      else if length (elems (getProp flt field)) = 0
      then Rejected (BadRequestError
             (''Attribute \"'' @ field @ ''\" in  \"'' @ keyword @ ''\" cannot be empty''))
      else Resolved ())"

section \<open>Collaborators outside the file\<close>

text \<open>
  The helpers required at the top of the file are taken as parameters: the key-casing
  normaliser, the point and distance converters, the geohash decoder, the regular
  expression engine (compiling a pattern; matching the bounding-box string pattern and
  reading its two groups with \<^verbatim>\<open>parseFloat\<close>), and the two conversions to text that
  only error messages use.
\<close>

record env =
  geoLocationToCamelCase :: "jv \<Rightarrow> jv"
  convertGeopoint :: "jv \<Rightarrow> jv"
  convertDistance :: "jv \<Rightarrow> error + jv"
  geohashDecode :: "string \<Rightarrow> jv"
  regExpError :: "jv \<Rightarrow> jv \<Rightarrow> string option"
  matchStringBoundingBox :: "string \<Rightarrow> (jv \<times> jv) option"
  jsonStringify :: "jv \<Rightarrow> string"
  toStringJs :: "jv \<Rightarrow> string"

section \<open>Leaf predicates\<close>

definition exists :: "jv \<Rightarrow> string \<Rightarrow> jv outcome" where
  "exists flt name =
     andThen (mustBeNonEmptyObject (getProp flt name) name) (\<lambda>field.
     andThen (onlyOneFieldAttribute field name) (\<lambda>_.
     andThen (mustBeString (getProp flt name) name ''field'') (\<lambda>_.
       if getProp (getProp flt name) ''field'' = JStr []
       then Rejected (BadRequestError ''exists: cannot test empty field name'')
       else Resolved flt)))"

definition ids :: "jv \<Rightarrow> jv outcome" where
  "ids flt =
     andThen (mustBeNonEmptyObject (getProp flt ''ids'') ''ids'') (\<lambda>field.
     andThen (onlyOneFieldAttribute field ''ids'') (\<lambda>_.
     andThen (requireAttribute (getProp flt ''ids'') ''ids'' ''values'') (\<lambda>_.
     andThen (mustBeNonEmptyArray (getProp flt ''ids'') ''ids'' ''values'') (\<lambda>_.
       if list_ex (\<lambda>v. typeof v \<noteq> ''string'') (elems (getProp (getProp flt ''ids'') ''values''))
       then Rejected (BadRequestError
              ''Array \"values\" in keyword \"ids\" can only contain strings'')
       else Resolved (JObj
              [(''or'', JArr (map (\<lambda>v. JObj [(''equals'', JObj [(''_id'', v)])])
                                (elems (getProp (getProp flt ''ids'') ''values'')))),
               (''_isLeaf'', JBool True)])))))"

definition missing :: "jv \<Rightarrow> jv outcome" where
  "missing flt =
     andThen (exists flt ''missing'') (\<lambda>f.
       Resolved (JObj [(''not'', JObj [(''exists'',
         JObj [(''field'', getProp (getProp f ''missing'') ''field'')])])]))"

text \<open>
  The \<^verbatim>\<open>forEach\<close> of \<^verbatim>\<open>range\<close>: one step on the triple \<open>(high, low, error)\<close>.
  \<open>v\<close> is the bound object \<^verbatim>\<open>filter.range[rangeField]\<close>.
\<close>

definition startsWith :: "string \<Rightarrow> string \<Rightarrow> bool" where
  "startsWith s p = (take (length p) s = p)"

definition range_step ::
  "string \<Rightarrow> jv \<Rightarrow> string \<Rightarrow> jv \<times> jv \<times> error option \<Rightarrow> jv \<times> jv \<times> error option" where
  "range_step rangeField v rangeType st =
     (let (high, low, err) = st;
          (high, err) =
            (if startsWith rangeType ''lt'' then
               (if high \<noteq> JNum Infinity
                then (high, Some (BadRequestError
                        (''\"range.'' @ rangeField @ '':\" only 1 upper boundary allowed'')))
                else (getProp v rangeType, err))
             else (high, err));
          (low, err) =
            (if startsWith rangeType ''gt'' then
               (if low \<noteq> JNum MinusInfinity
                then (low, Some (BadRequestError
                        (''\"range.'' @ rangeField @ '':\" only 1 lower boundary allowed'')))
                else (getProp v rangeType, err))
             else (low, err))
      in (high, low, err))"

text \<open>\<^verbatim>\<open>high <= low\<close> on doubles: false as soon as one side is \<^verbatim>\<open>NaN\<close>.\<close>

fun num_le :: "jnum \<Rightarrow> jnum \<Rightarrow> bool" where
  "num_le NaN b = False"
| "num_le a NaN = False"
| "num_le MinusInfinity b = True"
| "num_le a Infinity = True"
| "num_le (Finite x) (Finite y) = (x \<le> y)"
| "num_le a b = False"

text \<open>Both operands are numbers where the code compares them (the type test comes first).\<close>

fun js_le :: "jv \<Rightarrow> jv \<Rightarrow> bool" where
  "js_le (JNum a) (JNum b) = num_le a b"
| "js_le a b = False"

definition range_kw :: "jv \<Rightarrow> jv outcome" where
  "range_kw flt =
     andThen (mustBeNonEmptyObject (getProp flt ''range'') ''range'') (\<lambda>field.
     andThen (onlyOneFieldAttribute field ''range'') (\<lambda>field.
     let rangeField = first_key field; v = getProp (getProp flt ''range'') rangeField in
     andThen (mustBeNonEmptyObject v (''range.'' @ rangeField)) (\<lambda>rangeValues.
       if list_ex (\<lambda>a. a \<notin> set [''gt'', ''lt'', ''gte'', ''lte'']) rangeValues
       then Rejected (BadRequestError (''\"range.'' @ rangeField
              @ ''\" accepts only the following attributes : gt, gte, lt, lte''))
       else case find (\<lambda>a. typeof (getProp v a) \<noteq> ''number'') rangeValues of
         Some a \<Rightarrow> Rejected (BadRequestError
              (''\"range.'' @ rangeField @ ''.'' @ a @ ''\" must be a number''))
       | None \<Rightarrow>
         (case foldl (\<lambda>st rangeType. range_step rangeField v rangeType st)
                 (JNum Infinity, JNum MinusInfinity, None) rangeValues of
            (high, low, Some e) \<Rightarrow> Rejected e
          | (high, low, None) \<Rightarrow>
              if js_le high low
              then Rejected (BadRequestError (''\"range.'' @ rangeField
                     @ '':\" lower boundary must be strictly inferior to the upper one''))
              else Resolved flt))))"

definition templateString :: "env \<Rightarrow> jv \<Rightarrow> string" where
  "templateString E v = (case v of JStr s \<Rightarrow> s | _ \<Rightarrow> toStringJs E v)"

definition regexp :: "env \<Rightarrow> jv \<Rightarrow> jv outcome" where
  "regexp E flt =
     andThen (mustBeNonEmptyObject (getProp flt ''regexp'') ''regexp'') (\<lambda>field.
     andThen (onlyOneFieldAttribute field ''regexp'') (\<lambda>field.
     let regexpField = first_key field; v = getProp (getProp flt ''regexp'') regexpField in
     andThen (mustBeNonEmptyObject v (''regexp.'' @ regexpField)) (\<lambda>regexpValues.
     andThen (if list_ex (\<lambda>a. a \<notin> set [''flags'', ''value'']) regexpValues
              then Rejected (BadRequestError
                ''Keyword \"regexp\" can only contain the following attributes: flags, value'')
              else requireAttribute v ''regexp'' ''value'') (\<lambda>_.
     andThen (if truthy (getProp v ''flags'') then mustBeString v ''regexp'' ''flags''
              else Resolved ()) (\<lambda>_.
       case regExpError E (getProp v ''value'') (getProp v ''flags'') of
         Some msg \<Rightarrow> Rejected (BadRequestError (''Invalid regular expression \"''
              @ templateString E (getProp v ''value'') @ ''\": '' @ msg))
       | None \<Rightarrow> Resolved flt)))))"

definition equals :: "jv \<Rightarrow> jv outcome" where
  "equals flt =
     andThen (mustBeNonEmptyObject (getProp flt ''equals'') ''equals'') (\<lambda>field.
     andThen (onlyOneFieldAttribute field ''equals'') (\<lambda>field.
     andThen (mustBeString (getProp flt ''equals'') ''equals'' (first_key field)) (\<lambda>_.
       Resolved flt)))"

definition in_kw :: "jv \<Rightarrow> jv outcome" where
  "in_kw flt =
     andThen (mustBeNonEmptyObject (getProp flt ''in'') ''in'') (\<lambda>field.
     andThen (onlyOneFieldAttribute field ''in'') (\<lambda>field.
     let inValue = first_key field in
     andThen (mustBeNonEmptyArray (getProp flt ''in'') ''in'' inValue) (\<lambda>_.
       if list_ex (\<lambda>v. typeof v \<noteq> ''string'') (elems (getProp (getProp flt ''in'') inValue))
       then Rejected (BadRequestError
              (''Array \"'' @ inValue @ ''\" in keyword \"in\" can only contain strings''))
       else Resolved (JObj
              [(''or'', JArr (map (\<lambda>v. JObj [(''equals'', JObj [(inValue, v)])])
                                (elems (getProp (getProp flt ''in'') inValue)))),
               (''_isLeaf'', JBool True)]))))"

section \<open>Geo predicates\<close>

text \<open>
  Modelled from the spec: the multi-field-existence checker \<^verbatim>\<open>fieldsExist\<close> of
  \<^verbatim>\<open>../util/fieldsExist\<close>, which is not part of the sources at hand. Every listed field
  is present in the object with the given \<^verbatim>\<open>typeof\<close>; the optional fourth argument, a
  pattern the string flds have to match, is the predicate \<open>re\<close>.
\<close>

definition fieldsExist :: "jv \<Rightarrow> string list \<Rightarrow> string \<Rightarrow> bool" where
  "fieldsExist obj flds type = list_all (\<lambda>f. typeof (getProp obj f) = type) flds"

definition fieldsExistMatching ::
  "jv \<Rightarrow> string list \<Rightarrow> string \<Rightarrow> (string \<Rightarrow> bool) \<Rightarrow> bool" where
  "fieldsExistMatching obj flds type re =
     list_all (\<lambda>f. case getProp obj f of JStr s \<Rightarrow> type = ''string'' \<and> re s | _ \<Rightarrow> False) flds"

text \<open>\<^verbatim>\<open>RegexGeohash = /^[0-9a-z]{4,}$/\<close>\<close>

definition RegexGeohash :: "string \<Rightarrow> bool" where
  "RegexGeohash s =
     (length s \<ge> 4 \<and> list_all (\<lambda>c. c \<in> set ''0123456789abcdefghijklmnopqrstuvwxyz'') s)"

text \<open>\<^verbatim>\<open>RegexStringBoundingBox\<close>: the engine decides the match and reads the two groups.\<close>

definition RegexStringBoundingBox :: "env \<Rightarrow> string \<Rightarrow> bool" where
  "RegexStringBoundingBox E s = (matchStringBoundingBox E s \<noteq> None)"

fun strOf :: "jv \<Rightarrow> string" where
  "strOf (JStr s) = s"
| "strOf v = []"

definition rect :: "jv \<Rightarrow> jv \<Rightarrow> jv \<Rightarrow> jv \<Rightarrow> jv" where
  "rect t l b r = JObj [(''top'', t), (''left'', l), (''bottom'', b), (''right'', r)]"

text \<open>The chain of format tests of \<^verbatim>\<open>geoBoundingBox\<close>; its value is the object \<^verbatim>\<open>standardized\<close>.\<close>

definition bBoxStandardized :: "env \<Rightarrow> jv \<Rightarrow> jv" where
  "bBoxStandardized E bBox =
     (let tl = getProp bBox ''topLeft''; br = getProp bBox ''bottomRight'' in
      if fieldsExist bBox [''top'', ''left'', ''bottom'', ''right''] ''number''
      then rect (getProp bBox ''top'') (getProp bBox ''left'')
                (getProp bBox ''bottom'') (getProp bBox ''right'')
      else if fieldsExist bBox [''bottomRight'', ''topLeft''] ''object''
              \<and> fieldsExist br [''lat'', ''lon''] ''number''
              \<and> fieldsExist tl [''lat'', ''lon''] ''number''
      then rect (getProp tl ''lat'') (getProp tl ''lon'') (getProp br ''lat'') (getProp br ''lon'')
      else if fieldsExist bBox [''bottomRight'', ''topLeft''] ''object''
              \<and> isArray br \<and> isArray tl
              \<and> length (elems br) = 2 \<and> length (elems tl) = 2
              \<and> list_all (\<lambda>v. typeof v = ''number'') (elems br)
              \<and> list_all (\<lambda>v. typeof v = ''number'') (elems tl)
      then rect (elems tl ! 0) (elems tl ! 1) (elems br ! 0) (elems br ! 1)
      else if fieldsExistMatching bBox [''bottomRight'', ''topLeft''] ''string''
                (RegexStringBoundingBox E)
      then (case (matchStringBoundingBox E (strOf tl), matchStringBoundingBox E (strOf br)) of
              (Some (t, l), Some (b, r)) \<Rightarrow> rect t l b r
            | _ \<Rightarrow> JObj [])
      else if fieldsExistMatching bBox [''bottomRight'', ''topLeft''] ''string'' RegexGeohash
      then rect (getProp (geohashDecode E (strOf tl)) ''latitude'')
                (getProp (geohashDecode E (strOf tl)) ''longitude'')
                (getProp (geohashDecode E (strOf br)) ''latitude'')
                (getProp (geohashDecode E (strOf br)) ''longitude'')
      else JObj [])"

definition geoBoundingBox :: "env \<Rightarrow> jv \<Rightarrow> jv outcome" where
  "geoBoundingBox E flt =
     andThen (mustBeNonEmptyObject (getProp flt ''geoBoundingBox'') ''geoBoundingBox'') (\<lambda>field.
     andThen (onlyOneFieldAttribute field ''geoBoundingBox'') (\<lambda>field.
       let bBox = geoLocationToCamelCase E (getProp (getProp flt ''geoBoundingBox'') (first_key field));
           standardized = bBoxStandardized E bBox
       in if \<not> truthy (getProp standardized ''top'')
          then Rejected (BadRequestError
                 (''Unrecognized geo-point format in \"geoBoundingBox.'' @ first_key field))
          else Resolved (JObj [(''geospatial'',
                 JObj [(''geoBoundingBox'', JObj [(first_key field, standardized)])])])))"

text \<open>\<^verbatim>\<open>Object.keys(o).find(p)\<close>, read as a property name.\<close>

definition findKey :: "(string \<Rightarrow> bool) \<Rightarrow> string list \<Rightarrow> string" where
  "findKey p ks = (case find p ks of Some k \<Rightarrow> k | None \<Rightarrow> ''undefined'')"

text \<open>
  \<^verbatim>\<open>{lat: point.lat, lon: point.lon}\<close> with further attributes: reading a property of
  \<^verbatim>\<open>undefined\<close> throws (\<^verbatim>\<open>null\<close> is tested before).
\<close>

definition pointObject :: "jv \<Rightarrow> (string \<times> jv) list \<Rightarrow> jv" where
  "pointObject point extra =
     JObj ([(''lat'', getProp point ''lat''), (''lon'', getProp point ''lon'')] @ extra)"

definition geoDistance :: "env \<Rightarrow> jv \<Rightarrow> jv outcome" where
  "geoDistance E flt =
     (let g = getProp flt ''geoDistance'' in
      andThen (mustBeNonEmptyObject g ''geoDistance'') (\<lambda>flds.
      andThen (if length flds \<noteq> 2 \<or> ''distance'' \<notin> set flds
               then Rejected (BadRequestError
                 ''\"geoDistance\" keyword requires a document field and a \"distance\" attribute'')
               else mustBeString g ''geoDistance'' ''distance'') (\<lambda>_.
        let docField = findKey (\<lambda>f. f \<noteq> ''distance'') (keys g);
            point = convertGeopoint E (getProp g docField)
        in if point = JNull
           then Rejected (BadRequestError
                  (''geoDistance.'' @ docField @ '': unrecognized point format''))
           else if point = JUndefined then Thrown TypeError
           else case convertDistance E (getProp g ''distance'') of
                  Inl e \<Rightarrow> Rejected e
                | Inr d \<Rightarrow> Resolved (JObj [(''geospatial'', JObj [(''geoDistance'',
                            JObj [(docField, pointObject point [(''distance'', d)])])])]))))"

definition geoDistanceRange :: "env \<Rightarrow> jv \<Rightarrow> jv outcome" where
  "geoDistanceRange E flt =
     (let g = getProp flt ''geoDistanceRange'' in
      andThen (mustBeNonEmptyObject g ''geoDistanceRange'') (\<lambda>flds.
      andThen (if length flds \<noteq> 3 \<or> ''from'' \<notin> set flds \<or> ''to'' \<notin> set flds
               then Rejected (BadRequestError
                 ''\"geoDistanceRange\" keyword requires a document field and the following attributes: \"from\", \"to\"'')
               else mustBeString g ''geoDistanceRange'' ''from'') (\<lambda>_.
      andThen (mustBeString g ''geoDistanceRange'' ''to'') (\<lambda>_.
        let docField = findKey (\<lambda>f. f \<noteq> ''from'' \<and> f \<noteq> ''to'') (keys g);
            point = convertGeopoint E (getProp g docField)
        in if point = JNull
           then Rejected (BadRequestError
                  (''geoDistanceRange.'' @ docField @ '': unrecognized point format''))
           else if point = JUndefined then Thrown TypeError
           else case convertDistance E (getProp g ''from'') of
                  Inl e \<Rightarrow> Rejected e
                | Inr from \<Rightarrow>
                   (case convertDistance E (getProp g ''to'') of
                      Inl e \<Rightarrow> Rejected e
                    | Inr to \<Rightarrow>
                        if js_le to from
                        then Rejected (BadRequestError (''geoDistanceRange.'' @ docField
                               @ '': inner radius must be smaller than outer radius''))
                        else Resolved (JObj [(''geospatial'', JObj [(''geoDistanceRange'',
                               JObj [(docField,
                                 pointObject point [(''from'', from), (''to'', to)])])])]))))))"

text \<open>The \<^verbatim>\<open>for\<close> loop of \<^verbatim>\<open>geoPolygon\<close> over the remaining points.\<close>

fun polygonPoints :: "env \<Rightarrow> string \<Rightarrow> jv list \<Rightarrow> jv list \<Rightarrow> jv list outcome" where
  "polygonPoints E docField [] points = Resolved points"
| "polygonPoints E docField (p # ps) points =
     (let point = convertGeopoint E p in
      if point = JNull
      then Rejected (BadRequestError (''geoPolygon.'' @ docField
             @ '': unrecognized point format ('' @ jsonStringify E p @ '')''))
      else if point = JUndefined then Thrown TypeError
      else polygonPoints E docField ps
             (points @ [JArr [getProp point ''lat'', getProp point ''lon'']]))"

definition geoPolygon :: "env \<Rightarrow> jv \<Rightarrow> jv outcome" where
  "geoPolygon E flt =
     andThen (mustBeNonEmptyObject (getProp flt ''geoPolygon'') ''geoPolygon'') (\<lambda>flds.
     andThen (onlyOneFieldAttribute flds ''geoBoundingBox'') (\<lambda>flds.
     let docField = first_key flds; v = getProp (getProp flt ''geoPolygon'') docField in
     andThen (requireAttribute v (''geoPolygon.'' @ docField) ''points'') (\<lambda>_.
     andThen (mustBeNonEmptyArray v (''geoPolygon.'' @ docField) ''points'') (\<lambda>_.
       if length (elems (getProp v ''points'')) < 3
       then Rejected (BadRequestError (''\"geoPolygon.'' @ docField
              @ ''\": at least 3 points are required to build a polygon''))
       else andThen (polygonPoints E docField (elems (getProp v ''points'')) []) (\<lambda>points.
              Resolved (JObj [(''geospatial'',
                JObj [(''geoPolygon'', JObj [(docField, JArr points)])])]))))))"

section \<open>Boolean combinators\<close>

text \<open>
  The methods below call \<^verbatim>\<open>this.standardize\<close> on nested expressions. They take it as the
  argument \<open>std\<close>; the entry point at the end ties the knot.
\<close>

text \<open>
  The test of \<^verbatim>\<open>_standardizeFilterArray\<close> on the items, as \<^verbatim>\<open>findIndex\<close> runs it from the
  left: \<open>Resolved True\<close> when an item is not a non-empty, non-array object. On \<^verbatim>\<open>null\<close>
  the first two tests pass and \<^verbatim>\<open>Object.keys(null)\<close> throws.
\<close>

fun badItem :: "jv list \<Rightarrow> bool outcome" where
  "badItem [] = Resolved False"
| "badItem (x # xs) =
     (if typeof x \<noteq> ''object'' \<or> isArray x then Resolved True
      else if x = JNull then Thrown TypeError
      else if length (keys x) = 0 then Resolved True
      else badItem xs)"

text \<open>
  \<^verbatim>\<open>ToInt32\<close>, which \<^verbatim>\<open>&=\<close> applies to both flags. A flag is a boolean, \<^verbatim>\<open>0\<close>, \<^verbatim>\<open>1\<close> or
  absent; texts and objects never occur in that place and are read as \<^verbatim>\<open>0\<close>.
\<close>

fun toInt32 :: "jv \<Rightarrow> 32 word" where
  "toInt32 (JBool b) = (if b then 1 else 0)"
| "toInt32 (JNum (Finite r)) = word_of_int (if r \<ge> 0 then \<lfloor>r\<rfloor> else \<lceil>r\<rceil>)"
| "toInt32 v = 0"

definition bitAnd :: "jv \<Rightarrow> jv \<Rightarrow> jv" where
  "bitAnd a b = JNum (Finite (of_int (sint (and (toInt32 a) (toInt32 b)))))"

text \<open>\<^verbatim>\<open>xs.concat(v)\<close>: an array argument is spliced, any other value is appended.\<close>

fun concatJs :: "jv list \<Rightarrow> jv \<Rightarrow> jv list" where
  "concatJs xs (JArr ys) = xs @ ys"
| "concatJs xs v = xs @ [v]"

text \<open>\<^verbatim>\<open>Object.keys(sub)[0]\<close>, \<open>None\<close> for \<^verbatim>\<open>undefined\<close>.\<close>

fun firstKey :: "jv \<Rightarrow> string option" where
  "firstKey v = (case keys v of [] \<Rightarrow> None | k # ks \<Rightarrow> Some k)"

text \<open>
  The reducer of \<^verbatim>\<open>_standardizeFilterArray\<close> on the state \<open>(result[operand], result._isLeaf)\<close>.
  It throws when \<open>sub\<close> is \<^verbatim>\<open>undefined\<close> or \<^verbatim>\<open>null\<close>.
\<close>

definition reducer :: "string \<Rightarrow> jv list \<times> jv \<Rightarrow> jv \<Rightarrow> (jv list \<times> jv) outcome" where
  "reducer operand st sub =
     (let (items, isLeaf) = st in
      if nullish sub then Thrown TypeError
      else if firstKey sub = Some operand
      then Resolved (concatJs items (getProp sub operand), bitAnd isLeaf (getProp sub ''_isLeaf''))
      else Resolved (items @ [sub],
             if firstKey sub \<in> {Some ''and'', Some ''or''} then JBool False else isLeaf))"

text \<open>
  \<^verbatim>\<open>Promise.reduce\<close> over the outcomes of the items, one after the other: the first
  rejected item, or a reducer that throws, rejects the whole.
\<close>

fun reduce :: "string \<Rightarrow> jv outcome list \<Rightarrow> jv list \<times> jv \<Rightarrow> (jv list \<times> jv) outcome" where
  "reduce operand [] st = Resolved st"
| "reduce operand (Resolved sub # rs) st =
     (case reducer operand st sub of
        Resolved st' \<Rightarrow> reduce operand rs st'
      | Rejected e \<Rightarrow> Rejected e
      | Thrown e \<Rightarrow> Rejected e)"
| "reduce operand (Rejected e # rs) st = Rejected e"
| "reduce operand (Thrown e # rs) st = Rejected e"

text \<open>
  \<^verbatim>\<open>filter[operand].map(f => this.standardize(f))\<close>: a call that throws ends the
  \<^verbatim>\<open>map\<close> at once, whatever the items before it gave.
\<close>

fun firstThrown :: "'a outcome list \<Rightarrow> error option" where
  "firstThrown [] = None"
| "firstThrown (Thrown e # rs) = Some e"
| "firstThrown (r # rs) = firstThrown rs"

definition standardizeFilterArray :: "(jv \<Rightarrow> jv outcome) \<Rightarrow> jv \<Rightarrow> string \<Rightarrow> jv outcome" where
  "standardizeFilterArray std flt operand =
     (if nullish (getProp flt operand) then Thrown TypeError
      else case badItem (elems (getProp flt operand)) of
        Thrown e \<Rightarrow> Thrown e
      | Rejected e \<Rightarrow> Rejected e
      | Resolved True \<Rightarrow> Rejected (BadRequestError
          (''\"'' @ operand @ ''\" operand can only contain non-empty objects''))
      | Resolved False \<Rightarrow>
          (let subs = map std (elems (getProp flt operand)) in
           case firstThrown subs of
             Some e \<Rightarrow> Thrown e
           | None \<Rightarrow>
               andThen (reduce operand subs ([], JBool True)) (\<lambda>(items, isLeaf).
                 if length items = 1 then Resolved (items ! 0)
                 else Resolved (JObj [(operand, JArr items), (''_isLeaf'', isLeaf)]))))"

definition and_kw :: "(jv \<Rightarrow> jv outcome) \<Rightarrow> jv \<Rightarrow> string \<Rightarrow> jv outcome" where
  "and_kw std flt keyword =
     andThen (mustBeNonEmptyArray flt ''and'' keyword) (\<lambda>_. standardizeFilterArray std flt ''and'')"

definition or_kw :: "(jv \<Rightarrow> jv outcome) \<Rightarrow> jv \<Rightarrow> string \<Rightarrow> jv outcome" where
  "or_kw std flt keyword =
     andThen (mustBeNonEmptyArray flt ''or'' keyword) (\<lambda>_. standardizeFilterArray std flt ''or'')"

definition not_kw :: "(jv \<Rightarrow> jv outcome) \<Rightarrow> jv \<Rightarrow> jv outcome" where
  "not_kw std flt =
     andThen (mustBeNonEmptyObject (getProp flt ''not'') ''not'') (\<lambda>flds.
     andThen (onlyOneFieldAttribute flds ''not'') (\<lambda>flds.
     let kwd = first_key flds in
     andThen (if kwd = ''and'' \<or> kwd = ''or''
              then mustBeNonEmptyArray (getProp flt ''not'') ''not'' kwd
              else andThen (mustBeNonEmptyObject (getProp (getProp flt ''not'') kwd)
                     (''not.'' @ kwd)) (\<lambda>_. Resolved ())) (\<lambda>_.
     andThen (std (getProp flt ''not'')) (\<lambda>result.
       Resolved (JObj [(''not'', result)])))))"

text \<open>\<^verbatim>\<open>o[k] = v\<close> on an object: the property keeps its place, a new one comes last.\<close>

fun setEntry :: "(string \<times> jv) list \<Rightarrow> string \<Rightarrow> jv \<Rightarrow> (string \<times> jv) list" where
  "setEntry [] k v = [(k, v)]"
| "setEntry ((k', v') # kvs) k v =
     (if k' = k then (k, v) # kvs else (k', v') # setEntry kvs k v)"

fun setProp :: "jv \<Rightarrow> string \<Rightarrow> jv \<Rightarrow> jv" where
  "setProp (JObj kvs) k v = JObj (setEntry kvs k v)"
| "setProp o' k v = o'"

text \<open>
  The two statements \<^verbatim>\<open>standardized.and = standardized.and.concat(x); standardized._isLeaf = false\<close>
  of \<^verbatim>\<open>bool\<close>. \<^verbatim>\<open>standardized\<close> is the initial node or what \<^verbatim>\<open>this.and\<close> resolved to; its
  \<^verbatim>\<open>and\<close> is an array when it is an \<^verbatim>\<open>and\<close> node, and otherwise absent (or, on the
  Standardizer instance, the method of that name), where the call of \<^verbatim>\<open>concat\<close> throws.
\<close>

definition boolAppend :: "jv \<Rightarrow> jv \<Rightarrow> jv outcome" where
  "boolAppend standardized x =
     (case getProp standardized ''and'' of
        JArr xs \<Rightarrow> Resolved (setProp (setProp standardized ''and'' (JArr (concatJs xs x)))
                     ''_isLeaf'' (JBool False))
      | _ \<Rightarrow> Thrown TypeError)"

text \<open>
  The end of \<^verbatim>\<open>bool\<close>: \<^verbatim>\<open>standardized.and.length === 1\<close>. The method \<^verbatim>\<open>and\<close> of the
  instance has two parameters.
\<close>

definition boolFinish :: "jv \<Rightarrow> jv outcome" where
  "boolFinish standardized =
     (if standardized = JThis then Resolved standardized
      else case getProp standardized ''and'' of
        JArr xs \<Rightarrow> if length xs = 1 then Resolved (xs ! 0) else Resolved standardized
      | JStr s \<Rightarrow> if length s = 1 then Resolved (JStr s) else Resolved standardized
      | JUndefined \<Rightarrow> Thrown TypeError
      | JNull \<Rightarrow> Thrown TypeError
      | _ \<Rightarrow> Resolved standardized)"

definition bool_kw :: "(jv \<Rightarrow> jv outcome) \<Rightarrow> jv \<Rightarrow> jv outcome" where
  "bool_kw std flt =
     (let attributes = [''must'', ''must_not'', ''should'', ''should_not''];
          b = getProp flt ''bool'' in
      andThen (mustBeNonEmptyObject b ''bool'') (\<lambda>flds.
      andThen (if list_ex (\<lambda>f. f \<notin> set attributes) flds
               then Rejected (BadRequestError
                 ''\"bool\" operand accepts only the following attributes: must, must_not, should, should_not'')
               else if truthy (getProp b ''must'')
               then and_kw std (JObj [(''and'', getProp b ''must'')]) ''and''
               else Resolved JNull) (\<lambda>f.
      let standardized =
            (if truthy f then f else JObj [(''and'', JArr []), (''_isLeaf'', JBool True)]) in
      andThen (if truthy (getProp b ''must_not'')
               then or_kw std (JObj [(''or'', getProp b ''must_not'')]) ''or''
               else Resolved JNull) (\<lambda>f.
      andThen (if truthy f then boolAppend standardized (JObj [(''not'', f)])
               else Resolved standardized) (\<lambda>standardized.
      andThen (if truthy (getProp b ''should'')
               then or_kw std (JObj [(''or'', getProp b ''should'')]) ''or''
               else Resolved JNull) (\<lambda>f.
      andThen (if truthy f then boolAppend standardized f
               else Resolved standardized) (\<lambda>standardized.
      andThen (if truthy (getProp b ''should_not'')
               then and_kw std (JObj [(''and'', getProp b ''should_not'')]) ''and''
               else Resolved JNull) (\<lambda>f.
      andThen (if truthy f then boolAppend standardized (JObj [(''not'', f)])
               else Resolved standardized) (\<lambda>standardized.
        boolFinish standardized)))))))))"

section \<open>Dispatch\<close>

text \<open>
  \<^verbatim>\<open>this[keywords[0]](filters)\<close>. The lookup goes through the instance, the methods of the
  class and the properties every object inherits; whatever it finds under the name is
  called. Besides the fifteen validators it finds:
  \<^item> \<^verbatim>\<open>standardize\<close> itself, which is entered again with the same argument, without end,
    until the call stack is exhausted;
  \<^item> \<^verbatim>\<open>_standardizeFilterArray\<close>, called without operand;
  \<^item> \<^verbatim>\<open>constructor\<close> (a class, not callable without \<^verbatim>\<open>new\<close>), \<^verbatim>\<open>__proto__\<close> (an object,
    not callable), \<^verbatim>\<open>__defineGetter__\<close> and \<^verbatim>\<open>__defineSetter__\<close> (which require a function
    as second argument): all throw;
  \<^item> the remaining methods of \<^verbatim>\<open>Object.prototype\<close>, which return a value.
  A name found nowhere is \<^verbatim>\<open>undefined\<close>, and only then the keyword is unknown.
\<close>

definition dispatch :: "env \<Rightarrow> (jv \<Rightarrow> jv outcome) \<Rightarrow> string \<Rightarrow> jv \<Rightarrow> jv outcome" where
  "dispatch E std k filters =
     (if k = ''exists'' then exists filters ''exists''
      else if k = ''ids'' then ids filters
      else if k = ''missing'' then missing filters
      else if k = ''range'' then range_kw filters
      else if k = ''regexp'' then regexp E filters
      else if k = ''equals'' then equals filters
      else if k = ''in'' then in_kw filters
      else if k = ''geoBoundingBox'' then geoBoundingBox E filters
      else if k = ''geoDistance'' then geoDistance E filters
      else if k = ''geoDistanceRange'' then geoDistanceRange E filters
      else if k = ''geoPolygon'' then geoPolygon E filters
      else if k = ''and'' then and_kw std filters ''and''
      else if k = ''or'' then or_kw std filters ''or''
      else if k = ''not'' then not_kw std filters
      else if k = ''bool'' then bool_kw std filters
      else if k = ''standardize'' then Thrown RangeError
      else if k = ''_standardizeFilterArray'' then standardizeFilterArray std filters ''undefined''
      else if k \<in> set [''constructor'', ''__proto__'', ''__defineGetter__'', ''__defineSetter__'']
      then Thrown TypeError
      else if k \<in> set [''hasOwnProperty'', ''isPrototypeOf'', ''propertyIsEnumerable'']
      then Resolved (JBool False)
      else if k \<in> set [''__lookupGetter__'', ''__lookupSetter__''] then Resolved JUndefined
      else if k \<in> set [''toString'', ''toLocaleString''] then Resolved (JStr ''[object Object]'')
      else if k = ''valueOf'' then Resolved JThis
      else Rejected (BadRequestError (''Unknown DSL keyword: '' @ k)))"

lemma size_map_of:
  "map_of kvs k = Some v \<Longrightarrow> size v < Suc (size_list (size_prod (\<lambda>_. 0) size) kvs)"
  by (induction kvs) (auto split: if_splits)

lemma size_getProp: "getProp v k \<noteq> JUndefined \<Longrightarrow> size (getProp v k) < size v"
  by (cases v) (auto split: option.splits dest: size_map_of)

lemma size_elems: "c \<in> set (elems v) \<Longrightarrow> size c < size v"
  by (cases v) (auto simp: less_Suc_eq_le size_list_estimation')

lemma size_elems_getProp: "c \<in> set (elems (getProp v k)) \<Longrightarrow> size c < size v"
proof -
  assume c: "c \<in> set (elems (getProp v k))"
  then have "getProp v k \<noteq> JUndefined" by auto
  from size_getProp [OF this] size_elems [OF c] show ?thesis by simp
qed

text \<open>
  Each combinator hands only items of its own argument to \<open>std\<close>, which is what makes the
  recursion of the entry point well-founded.
\<close>

lemma standardizeFilterArray_cong:
  assumes "\<And>c. c \<in> set (elems (getProp flt operand)) \<Longrightarrow> std c = std' c"
  shows "standardizeFilterArray std flt operand = standardizeFilterArray std' flt operand"
proof -
  have h: "map std (elems (getProp flt operand)) = map std' (elems (getProp flt operand))"
    using assms by simp
  show ?thesis by (simp only: standardizeFilterArray_def h)
qed

lemma and_kw_cong:
  assumes "\<And>c. c \<in> set (elems (getProp flt ''and'')) \<Longrightarrow> std c = std' c"
  shows "and_kw std flt keyword = and_kw std' flt keyword"
  by (simp only: and_kw_def standardizeFilterArray_cong [of flt "''and''" std std', OF assms])

lemma or_kw_cong:
  assumes "\<And>c. c \<in> set (elems (getProp flt ''or'')) \<Longrightarrow> std c = std' c"
  shows "or_kw std flt keyword = or_kw std' flt keyword"
  by (simp only: or_kw_def standardizeFilterArray_cong [of flt "''or''" std std', OF assms])

lemma andThen_cong:
  assumes "p = q" "\<And>v. q = Resolved v \<Longrightarrow> f v = g v"
  shows "andThen p f = andThen q g"
  using assms by (cases q) auto

lemma not_kw_cong:
  assumes "getProp flt ''not'' \<noteq> JUndefined \<Longrightarrow> std (getProp flt ''not'') = std' (getProp flt ''not'')"
  shows "not_kw std flt = not_kw std' flt"
proof (cases "getProp flt ''not'' = JUndefined")
  case True
  then show ?thesis by (simp add: not_kw_def mustBeNonEmptyObject_def)
next
  case False
  from assms [OF this] show ?thesis by (simp only: not_kw_def)
qed

lemma bool_kw_cong:
  assumes "\<And>k c. c \<in> set (elems (getProp (getProp flt ''bool'') k)) \<Longrightarrow> std c = std' c"
  shows "bool_kw std flt = bool_kw std' flt"
proof -
  have a: "and_kw std (JObj [(''and'', getProp (getProp flt ''bool'') k)]) kw
         = and_kw std' (JObj [(''and'', getProp (getProp flt ''bool'') k)]) kw" for k kw
    by (rule and_kw_cong) (simp add: assms)
  have b: "or_kw std (JObj [(''or'', getProp (getProp flt ''bool'') k)]) kw
         = or_kw std' (JObj [(''or'', getProp (getProp flt ''bool'') k)]) kw" for k kw
    by (rule or_kw_cong) (simp add: assms)
  show ?thesis by (simp only: bool_kw_def Let_def a b)
qed

lemma size_elems2: "c \<in> set (elems (getProp (getProp v k) k')) \<Longrightarrow> size c < size v"
proof -
  assume c: "c \<in> set (elems (getProp (getProp v k) k'))"
  then have "getProp v k \<noteq> JUndefined" by auto
  from size_getProp [OF this] size_elems_getProp [OF c] show ?thesis by simp
qed

lemma dispatch_cong [fundef_cong]:
  assumes "E = E'" "k = k'" "filters = filters'"
    and h: "\<And>c. size c < size filters' \<Longrightarrow> std c = std' c"
  shows "dispatch E std k filters = dispatch E' std' k' filters'"
proof -
  have 1: "and_kw std filters' kw = and_kw std' filters' kw" for kw
    by (rule and_kw_cong) (simp add: h size_elems_getProp)
  have 2: "or_kw std filters' kw = or_kw std' filters' kw" for kw
    by (rule or_kw_cong) (simp add: h size_elems_getProp)
  have 3: "not_kw std filters' = not_kw std' filters'"
    by (rule not_kw_cong) (simp add: h size_getProp)
  have 4: "bool_kw std filters' = bool_kw std' filters'"
    by (rule bool_kw_cong) (simp add: h size_elems2)
  have 5: "standardizeFilterArray std filters' op = standardizeFilterArray std' filters' op" for op
    by (rule standardizeFilterArray_cong) (simp add: h size_elems_getProp)
  show ?thesis unfolding assms(1-3) by (simp only: dispatch_def 1 2 3 4 5)
qed

function standardize :: "env \<Rightarrow> jv \<Rightarrow> jv outcome" where
  "standardize E filters =
     (let keywords = (if truthy filters then keys filters else []) in
      if length keywords = 0 then Resolved (JObj [])
      else if length keywords > 1 then Rejected (BadRequestError ''Invalid filter syntax'')
      else dispatch E (standardize E) (first_key keywords) filters)"
  by pat_completeness auto
termination
  by (relation "measure (\<lambda>(E, f). size f)") auto


declare standardize.simps [simp del]

section \<open>Properties\<close>

text \<open>
  A collaborator record for evaluating concrete filters: key names are left as they are,
  no point, distance, pattern or geohash is recognised. The filters evaluated below
  do not reach any of them except the key-casing normaliser.
\<close>

definition sampleEnv :: env where
  "sampleEnv = \<lparr> geoLocationToCamelCase = (\<lambda>v. v), convertGeopoint = (\<lambda>v. JNull),
     convertDistance = (\<lambda>v. Inl (ExternalError ''distance'')), geohashDecode = (\<lambda>s. JObj []),
     regExpError = (\<lambda>a b. None), matchStringBoundingBox = (\<lambda>s. None),
     jsonStringify = (\<lambda>v. []), toStringJs = (\<lambda>v. []) \<rparr>"

lemma standardize_single:
  "standardize E (JObj [(k, v)]) = dispatch E (standardize E) k (JObj [(k, v)])"
  by (simp add: standardize.simps)

subsection \<open>The \<^verbatim>\<open>ids\<close> keyword\<close>

definition idsFilter :: "jv list \<Rightarrow> jv" where
  "idsFilter vs = JObj [(''ids'', JObj [(''values'', JArr vs)])]"

definition equalsId :: "jv \<Rightarrow> jv" where
  "equalsId v = JObj [(''equals'', JObj [(''_id'', v)])]"

text \<open>
  Claim C5. An \<^verbatim>\<open>ids\<close> filter \<^verbatim>\<open>{ids: {values: [v1, ..., vn]}}\<close> whose values are a
  non-empty array of strings standardizes to the \<^verbatim>\<open>or\<close> node of the leaves
  \<^verbatim>\<open>{equals: {_id: vi}}\<close>, in the same order, with \<^verbatim>\<open>_isLeaf\<close> true.
\<close>

theorem ids_rewritten_to_or:
  assumes "vs \<noteq> []" and "list_all (\<lambda>v. typeof v = ''string'') vs"
  shows "standardize E (idsFilter vs)
       = Resolved (JObj [(''or'', JArr (map equalsId vs)), (''_isLeaf'', JBool True)])"
proof -
  have "\<not> list_ex (\<lambda>v. typeof v \<noteq> ''string'') vs"
    using assms(2) by (simp add: list_all_iff list_ex_iff)
  then have "ids (idsFilter vs)
       = Resolved (JObj [(''or'', JArr (map equalsId vs)), (''_isLeaf'', JBool True)])"
    using assms(1)
    by (simp add: ids_def idsFilter_def mustBeNonEmptyObject_def onlyOneFieldAttribute_def
        requireAttribute_def mustBeNonEmptyArray_def equalsId_def cong: map_cong)
  then show ?thesis
    by (simp add: idsFilter_def standardize_single dispatch_def)
qed

text \<open>The instance of the specification: \<^verbatim>\<open>{ids: {values: ["a", "b"]}}\<close>.\<close>

theorem ids_rewritten_to_or_witness:
  "[JStr ''a'', JStr ''b''] \<noteq> [] \<and> list_all (\<lambda>v. typeof v = ''string'') [JStr ''a'', JStr ''b'']
   \<and> standardize sampleEnv (JObj [(''ids'', JObj [(''values'', JArr [JStr ''a'', JStr ''b''])])])
       = Resolved (JObj [(''or'', JArr [JObj [(''equals'', JObj [(''_id'', JStr ''a'')])],
                                        JObj [(''equals'', JObj [(''_id'', JStr ''b'')])]]),
                         (''_isLeaf'', JBool True)])"
  using ids_rewritten_to_or [of "[JStr ''a'', JStr ''b'']" sampleEnv]
  by (simp add: idsFilter_def equalsId_def)

subsection \<open>The \<^verbatim>\<open>geoBoundingBox\<close> keyword\<close>

definition geoBoundingBoxFilter :: "string \<Rightarrow> jv \<Rightarrow> jv" where
  "geoBoundingBoxFilter f v = JObj [(''geoBoundingBox'', JObj [(f, v)])]"

definition unrecognizedGeoFormat :: "string \<Rightarrow> jv outcome" where
  "unrecognizedGeoFormat f =
     Rejected (BadRequestError (''Unrecognized geo-point format in \"geoBoundingBox.'' @ f))"

lemma geoBoundingBox_single:
  "standardize E (geoBoundingBoxFilter f v) =
     (let standardized = bBoxStandardized E (geoLocationToCamelCase E v) in
      if \<not> truthy (getProp standardized ''top'') then unrecognizedGeoFormat f
      else Resolved (JObj [(''geospatial'',
             JObj [(''geoBoundingBox'', JObj [(f, standardized)])])]))"
  by (simp add: geoBoundingBoxFilter_def standardize_single dispatch_def geoBoundingBox_def
      mustBeNonEmptyObject_def onlyOneFieldAttribute_def unrecognizedGeoFormat_def Let_def)

lemma bBoxStandardized_flat:
  "fieldsExist bBox [''top'', ''left'', ''bottom'', ''right''] ''number'' \<Longrightarrow>
   bBoxStandardized E bBox = rect (getProp bBox ''top'') (getProp bBox ''left'')
                (getProp bBox ''bottom'') (getProp bBox ''right'')"
  by (simp add: bBoxStandardized_def)

text \<open>
  Claim C10. A \<^verbatim>\<open>geoBoundingBox\<close> filter on one field whose computed rectangle has a falsy
  \<^verbatim>\<open>top\<close> is rejected as an unrecognized geo-point format, whichever encoding matched;
  in particular a flat numeric box (after key-casing normalization) whose \<^verbatim>\<open>top\<close> is
  \<^verbatim>\<open>0\<close> (or \<^verbatim>\<open>NaN\<close>).
\<close>

theorem geoBoundingBox_falsy_top:
  "(\<not> truthy (getProp (bBoxStandardized E (geoLocationToCamelCase E v)) ''top'')
      \<longrightarrow> standardize E (geoBoundingBoxFilter f v) = unrecognizedGeoFormat f)
   \<and> (fieldsExist (geoLocationToCamelCase E v) [''top'', ''left'', ''bottom'', ''right''] ''number''
        \<and> getProp (geoLocationToCamelCase E v) ''top'' \<in> {JNum (Finite 0), JNum NaN}
      \<longrightarrow> standardize E (geoBoundingBoxFilter f v) = unrecognizedGeoFormat f)"
proof (intro conjI impI)
  assume "\<not> truthy (getProp (bBoxStandardized E (geoLocationToCamelCase E v)) ''top'')"
  then show "standardize E (geoBoundingBoxFilter f v) = unrecognizedGeoFormat f"
    by (simp add: geoBoundingBox_single)
next
  assume a: "fieldsExist (geoLocationToCamelCase E v) [''top'', ''left'', ''bottom'', ''right''] ''number''
        \<and> getProp (geoLocationToCamelCase E v) ''top'' \<in> {JNum (Finite 0), JNum NaN}"
  then have "\<not> truthy (getProp (bBoxStandardized E (geoLocationToCamelCase E v)) ''top'')"
    by (auto simp: bBoxStandardized_flat rect_def)
  then show "standardize E (geoBoundingBoxFilter f v) = unrecognizedGeoFormat f"
    by (simp add: geoBoundingBox_single)
qed

definition flatBox :: "rat \<Rightarrow> rat \<Rightarrow> rat \<Rightarrow> rat \<Rightarrow> jv" where
  "flatBox t l b r = JObj [(''top'', JNum (Finite t)), (''left'', JNum (Finite l)),
                           (''bottom'', JNum (Finite b)), (''right'', JNum (Finite r))]"

text \<open>The instance \<^verbatim>\<open>{geoBoundingBox: {loc: {top: 0, left: 2, bottom: -3, right: 4}}}\<close>.\<close>

theorem geoBoundingBox_falsy_top_witness:
  "\<not> truthy (getProp (bBoxStandardized sampleEnv (geoLocationToCamelCase sampleEnv (flatBox 0 2 (-3) 4))) ''top'')
   \<and> fieldsExist (geoLocationToCamelCase sampleEnv (flatBox 0 2 (-3) 4))
        [''top'', ''left'', ''bottom'', ''right''] ''number''
   \<and> getProp (geoLocationToCamelCase sampleEnv (flatBox 0 2 (-3) 4)) ''top'' = JNum (Finite 0)
   \<and> standardize sampleEnv (geoBoundingBoxFilter ''loc'' (flatBox 0 2 (-3) 4))
       = Rejected (BadRequestError ''Unrecognized geo-point format in \"geoBoundingBox.loc'')"
proof -
  have h: "fieldsExist (geoLocationToCamelCase sampleEnv (flatBox 0 2 (-3) 4))
        [''top'', ''left'', ''bottom'', ''right''] ''number''"
    by (simp add: sampleEnv_def flatBox_def fieldsExist_def)
  have t: "getProp (geoLocationToCamelCase sampleEnv (flatBox 0 2 (-3) 4)) ''top'' = JNum (Finite 0)"
    by (simp add: sampleEnv_def flatBox_def)
  have f: "\<not> truthy (getProp (bBoxStandardized sampleEnv (geoLocationToCamelCase sampleEnv (flatBox 0 2 (-3) 4))) ''top'')"
    using h t by (simp add: bBoxStandardized_flat rect_def)
  from geoBoundingBox_falsy_top [of sampleEnv "flatBox 0 2 (-3) 4" "''loc''"] h t f
  show ?thesis by (simp add: unrecognizedGeoFormat_def)
qed

text \<open>
  Claim C6. A flat numeric box is meant to be accepted and returned under
  \<^verbatim>\<open>geospatial.geoBoundingBox.<field>\<close>. The code does so for the box of the specification
  (\<^verbatim>\<open>top: 1, left: 2, bottom: 3, right: 4\<close>), and rejects the box
  \<^verbatim>\<open>{top: 0, left: -10, bottom: -5, right: 10}\<close>, whose northern edge is the equator.
\<close>

theorem geoBoundingBox_equator_rejected:
  "standardize sampleEnv (geoBoundingBoxFilter ''loc'' (flatBox 0 (-10) (-5) 10))
     = Rejected (BadRequestError ''Unrecognized geo-point format in \"geoBoundingBox.loc'')
   \<and> standardize sampleEnv (geoBoundingBoxFilter ''loc'' (flatBox 1 2 3 4))
     = Resolved (JObj [(''geospatial'', JObj [(''geoBoundingBox'',
         JObj [(''loc'', flatBox 1 2 3 4)])])])"
  by (simp add: geoBoundingBox_single bBoxStandardized_flat sampleEnv_def flatBox_def
      fieldsExist_def rect_def unrecognizedGeoFormat_def)

subsection \<open>The \<^verbatim>\<open>range\<close> keyword\<close>

definition rangeFilter :: "string \<Rightarrow> (string \<times> jv) list \<Rightarrow> jv" where
  "rangeFilter f bs = JObj [(''range'', JObj [(f, JObj bs)])]"

definition twoLower :: "(string \<times> jv) list \<Rightarrow> bool" where
  "twoLower bs = (''gt'' \<in> set (map fst bs) \<and> ''gte'' \<in> set (map fst bs))"

definition twoUpper :: "(string \<times> jv) list \<Rightarrow> bool" where
  "twoUpper bs = (''lt'' \<in> set (map fst bs) \<and> ''lte'' \<in> set (map fst bs))"

text \<open>
  The bounds in the words of the specification: \<open>high\<close> is taken from any \<^verbatim>\<open>lt*\<close> bound
  (default \<open>+\<infinity>\<close>), \<open>low\<close> from any \<^verbatim>\<open>gt*\<close> bound (default \<open>-\<infinity>\<close>).
\<close>

definition resolvedHigh :: "(string \<times> jv) list \<Rightarrow> jv" where
  "resolvedHigh bs = (case map_of bs ''lt'' of Some x \<Rightarrow> x
     | None \<Rightarrow> (case map_of bs ''lte'' of Some x \<Rightarrow> x | None \<Rightarrow> JNum Infinity))"

definition resolvedLow :: "(string \<times> jv) list \<Rightarrow> jv" where
  "resolvedLow bs = (case map_of bs ''gt'' of Some x \<Rightarrow> x
     | None \<Rightarrow> (case map_of bs ''gte'' of Some x \<Rightarrow> x | None \<Rightarrow> JNum MinusInfinity))"

definition finiteBound :: "jv \<Rightarrow> bool" where
  "finiteBound x = (case x of JNum n \<Rightarrow> n \<noteq> Infinity \<and> n \<noteq> MinusInfinity | _ \<Rightarrow> False)"

fun isRejected :: "'a outcome \<Rightarrow> bool" where
  "isRejected (Rejected e) = True"
| "isRejected r = False"

definition boundOrderError :: "string \<Rightarrow> jv outcome" where
  "boundOrderError f = Rejected (BadRequestError (''\"range.'' @ f
     @ '':\" lower boundary must be strictly inferior to the upper one''))"

lemma startsWith_names [simp]:
  "startsWith ''lt'' ''lt''" "startsWith ''lte'' ''lt''"
  "\<not> startsWith ''gt'' ''lt''" "\<not> startsWith ''gte'' ''lt''"
  "startsWith ''gt'' ''gt''" "startsWith ''gte'' ''gt''"
  "\<not> startsWith ''lt'' ''gt''" "\<not> startsWith ''lte'' ''gt''"
  by (simp_all add: startsWith_def)

text \<open>What the loop has established after the keys \<open>ks\<close>, whatever the numbers are.\<close>

definition rangeInv :: "jv \<Rightarrow> string list \<Rightarrow> jv \<times> jv \<times> error option \<Rightarrow> bool" where
  "rangeInv v ks st = (case st of (high, low, err) \<Rightarrow>
     (''lt'' \<notin> set ks \<and> ''lte'' \<notin> set ks \<longrightarrow> high = JNum Infinity)
   \<and> (''lt'' \<in> set ks \<and> ''lte'' \<notin> set ks \<longrightarrow> high = getProp v ''lt'')
   \<and> (''lte'' \<in> set ks \<and> ''lt'' \<notin> set ks \<longrightarrow> high = getProp v ''lte'')
   \<and> (''gt'' \<notin> set ks \<and> ''gte'' \<notin> set ks \<longrightarrow> low = JNum MinusInfinity)
   \<and> (''gt'' \<in> set ks \<and> ''gte'' \<notin> set ks \<longrightarrow> low = getProp v ''gt'')
   \<and> (''gte'' \<in> set ks \<and> ''gt'' \<notin> set ks \<longrightarrow> low = getProp v ''gte'')
   \<and> (\<not> (''lt'' \<in> set ks \<and> ''lte'' \<in> set ks) \<and> \<not> (''gt'' \<in> set ks \<and> ''gte'' \<in> set ks)
        \<longrightarrow> err = None))"

text \<open>What it has established in addition when no bound is infinite.\<close>

definition rangeErrInv :: "string list \<Rightarrow> jv \<times> jv \<times> error option \<Rightarrow> bool" where
  "rangeErrInv ks st = (case st of (high, low, err) \<Rightarrow>
     (''lt'' \<in> set ks \<or> ''lte'' \<in> set ks \<longrightarrow> high \<noteq> JNum Infinity)
   \<and> (''gt'' \<in> set ks \<or> ''gte'' \<in> set ks \<longrightarrow> low \<noteq> JNum MinusInfinity)
   \<and> ((''lt'' \<in> set ks \<and> ''lte'' \<in> set ks) \<or> (''gt'' \<in> set ks \<and> ''gte'' \<in> set ks)
        \<longrightarrow> err \<noteq> None))"

lemma rangeInv_step:
  assumes "rangeInv v ks st" "k \<notin> set ks" "k \<in> {''gt'', ''gte'', ''lt'', ''lte''}"
  shows "rangeInv v (ks @ [k]) (range_step rangeField v k st)"
proof -
  obtain high low err where st: "st = (high, low, err)" by (cases st) auto
  from assms(3) consider "k = ''gt''" | "k = ''gte''" | "k = ''lt''" | "k = ''lte''" by auto
  then show ?thesis
  proof cases
    case 1 with assms(1,2) show ?thesis
      unfolding st rangeInv_def range_step_def by (auto simp: Let_def)
  next
    case 2 with assms(1,2) show ?thesis
      unfolding st rangeInv_def range_step_def by (auto simp: Let_def)
  next
    case 3 with assms(1,2) show ?thesis
      unfolding st rangeInv_def range_step_def by (auto simp: Let_def)
  next
    case 4 with assms(1,2) show ?thesis
      unfolding st rangeInv_def range_step_def by (auto simp: Let_def)
  qed
qed

lemma rangeErrInv_step:
  assumes "rangeErrInv ks st" "k \<notin> set ks" "k \<in> {''gt'', ''gte'', ''lt'', ''lte''}"
    "finiteBound (getProp v k)"
  shows "rangeErrInv (ks @ [k]) (range_step rangeField v k st)"
proof -
  obtain high low err where st: "st = (high, low, err)" by (cases st) auto
  from assms(4) have fb: "getProp v k \<noteq> JNum Infinity" "getProp v k \<noteq> JNum MinusInfinity"
    by (auto simp: finiteBound_def split: jv.splits)
  from assms(3) consider "k = ''gt''" | "k = ''gte''" | "k = ''lt''" | "k = ''lte''" by auto
  then show ?thesis
  proof cases
    case 1 with assms(1,2) fb show ?thesis
      unfolding st rangeErrInv_def range_step_def by (auto simp: Let_def)
  next
    case 2 with assms(1,2) fb show ?thesis
      unfolding st rangeErrInv_def range_step_def by (auto simp: Let_def)
  next
    case 3 with assms(1,2) fb show ?thesis
      unfolding st rangeErrInv_def range_step_def by (auto simp: Let_def)
  next
    case 4 with assms(1,2) fb show ?thesis
      unfolding st rangeErrInv_def range_step_def by (auto simp: Let_def)
  qed
qed

definition rangeLoop :: "string \<Rightarrow> jv \<Rightarrow> string list \<Rightarrow> jv \<times> jv \<times> error option" where
  "rangeLoop rangeField v ks = foldl (\<lambda>st rangeType. range_step rangeField v rangeType st)
           (JNum Infinity, JNum MinusInfinity, None) ks"

lemma rangeInv_foldl:
  assumes "distinct ks" "set ks \<subseteq> {''gt'', ''gte'', ''lt'', ''lte''}"
  shows "rangeInv v ks (rangeLoop rangeField v ks)"
  using assms
proof (induction ks rule: rev_induct)
  case Nil
  show ?case by (simp add: rangeInv_def rangeLoop_def)
next
  case (snoc k ks)
  then have "rangeInv v ks (rangeLoop rangeField v ks)" by simp
  from rangeInv_step [OF this, of k rangeField] snoc.prems show ?case by (simp add: rangeLoop_def)
qed

lemma rangeErrInv_foldl:
  assumes "distinct ks" "set ks \<subseteq> {''gt'', ''gte'', ''lt'', ''lte''}"
    "\<forall>k\<in>set ks. finiteBound (getProp v k)"
  shows "rangeErrInv ks (rangeLoop rangeField v ks)"
  using assms
proof (induction ks rule: rev_induct)
  case Nil
  show ?case by (simp add: rangeErrInv_def rangeLoop_def)
next
  case (snoc k ks)
  then have "rangeErrInv ks (rangeLoop rangeField v ks)" by simp
  from rangeErrInv_step [OF this, of k v rangeField] snoc.prems show ?case
    by (simp add: rangeLoop_def)
qed

text \<open>The validator on a bound object that passed the two tests on its attributes.\<close>

lemma range_kw_loop:
  assumes "bs \<noteq> []" "set (map fst bs) \<subseteq> {''gt'', ''gte'', ''lt'', ''lte''}"
    "\<forall>k\<in>set (map fst bs). typeof (getProp (JObj bs) k) = ''number''"
  shows "standardize E (rangeFilter f bs) =
     (case rangeLoop f (JObj bs) (map fst bs) of
        (high, low, Some e) \<Rightarrow> Rejected e
      | (high, low, None) \<Rightarrow>
          if js_le high low then boundOrderError f else Resolved (rangeFilter f bs))"
proof -
  have 1: "\<not> list_ex (\<lambda>a. a \<notin> set [''gt'', ''lt'', ''gte'', ''lte'']) (map fst bs)"
    using assms(2) by (auto simp: list_ex_iff)
  have 2: "find (\<lambda>a. typeof (getProp (JObj bs) a) \<noteq> ''number'') (map fst bs) = None"
    using assms(3) by (auto simp: find_None_iff)
  have "range_kw (rangeFilter f bs) =
     (case rangeLoop f (JObj bs) (map fst bs) of
        (high, low, Some e) \<Rightarrow> Rejected e
      | (high, low, None) \<Rightarrow>
          if js_le high low then boundOrderError f else Resolved (rangeFilter f bs))"
    using assms(1) 1 2
    by (simp add: range_kw_def rangeFilter_def mustBeNonEmptyObject_def onlyOneFieldAttribute_def
        rangeLoop_def boundOrderError_def Let_def
        split: prod.splits option.splits)
  then show ?thesis
    by (simp add: rangeFilter_def standardize_single dispatch_def)
qed


lemma getProp_key_cases:
  "(k \<in> set (map fst bs) \<longrightarrow> (\<exists>x. map_of bs k = Some x \<and> getProp (JObj bs) k = x \<and> x \<in> set (map snd bs)))
   \<and> (k \<notin> set (map fst bs) \<longrightarrow> map_of bs k = None)"
proof (cases "map_of bs k")
  case None
  then show ?thesis by (simp add: map_of_eq_None_iff)
next
  case (Some x)
  then have "(k, x) \<in> set bs" by (rule map_of_SomeD)
  then have "k \<in> set (map fst bs)" "x \<in> set (map snd bs)" by force+
  with Some show ?thesis by simp
qed

lemma rangeInv_resolved:
  assumes "rangeInv (JObj bs) (map fst bs) (high, low, err)" "\<not> twoLower bs" "\<not> twoUpper bs"
  shows "high = resolvedHigh bs \<and> low = resolvedLow bs \<and> err = None"
proof -
  note c = getProp_key_cases [of "''lt''" bs] getProp_key_cases [of "''lte''" bs]
    getProp_key_cases [of "''gt''" bs] getProp_key_cases [of "''gte''" bs]
  have "high = resolvedHigh bs"
    using assms(1,3) c(1,2) unfolding rangeInv_def twoUpper_def resolvedHigh_def
    by (cases "''lt'' \<in> set (map fst bs)"; cases "''lte'' \<in> set (map fst bs)") auto
  moreover have "low = resolvedLow bs"
    using assms(1,2) c(3,4) unfolding rangeInv_def twoLower_def resolvedLow_def
    by (cases "''gt'' \<in> set (map fst bs)"; cases "''gte'' \<in> set (map fst bs)") auto
  moreover have "err = None"
    using assms unfolding rangeInv_def twoLower_def twoUpper_def by simp
  ultimately show ?thesis by simp
qed

text \<open>
  Claim C4, amended. For a \<^verbatim>\<open>range\<close> filter on one field whose bound object is not empty
  and has only the attributes \<^verbatim>\<open>gt\<close>, \<^verbatim>\<open>gte\<close>, \<^verbatim>\<open>lt\<close>, \<^verbatim>\<open>lte\<close>, each with a number:
  with two lower or two upper bounds, none of the bounds infinite, validation fails;
  with at most one bound on each side it fails with the bound-ordering error when the
  resolved upper bound is less than or equal to the resolved lower bound, and returns the
  filter unchanged otherwise.
\<close>

theorem range_bounds_checked:
  assumes "bs \<noteq> []" and "distinct (map fst bs)"
    and "set (map fst bs) \<subseteq> {''gt'', ''gte'', ''lt'', ''lte''}"
    and "\<forall>x\<in>set (map snd bs). typeof x = ''number''"
  shows "((twoLower bs \<or> twoUpper bs) \<and> list_all finiteBound (map snd bs)
            \<longrightarrow> isRejected (standardize E (rangeFilter f bs)))
       \<and> (\<not> twoLower bs \<and> \<not> twoUpper bs
            \<longrightarrow> standardize E (rangeFilter f bs) =
                (if js_le (resolvedHigh bs) (resolvedLow bs) then boundOrderError f
                 else Resolved (rangeFilter f bs)))"
proof -
  have num: "\<forall>k\<in>set (map fst bs). typeof (getProp (JObj bs) k) = ''number''"
    using getProp_key_cases [of _ bs] assms(4) by metis
  note loop = range_kw_loop [OF assms(1) assms(3) num, of E f]
  obtain high low err where st: "rangeLoop f (JObj bs) (map fst bs) = (high, low, err)"
    by (cases "rangeLoop f (JObj bs) (map fst bs)") auto
  have inv: "rangeInv (JObj bs) (map fst bs) (high, low, err)"
    using rangeInv_foldl [OF assms(2,3), of "JObj bs" f] st by simp
  have a: "isRejected (standardize E (rangeFilter f bs))"
    if dup: "twoLower bs \<or> twoUpper bs" and fin: "list_all finiteBound (map snd bs)"
  proof -
    have "\<forall>k\<in>set (map fst bs). finiteBound (getProp (JObj bs) k)"
      using getProp_key_cases [of _ bs] fin unfolding list_all_iff by metis
    from rangeErrInv_foldl [OF assms(2,3) this, of f] st
    have "rangeErrInv (map fst bs) (high, low, err)" by simp
    with dup have "err \<noteq> None"
      unfolding rangeErrInv_def twoLower_def twoUpper_def by auto
    then show ?thesis using loop st by auto
  qed
  have b: "standardize E (rangeFilter f bs) =
        (if js_le (resolvedHigh bs) (resolvedLow bs) then boundOrderError f
         else Resolved (rangeFilter f bs))"
    if "\<not> twoLower bs" "\<not> twoUpper bs"
    using rangeInv_resolved [OF inv that] loop st by simp
  from a b show ?thesis by blast
qed


text \<open>
  The instances of the specification, \<^verbatim>\<open>{range: {age: {gt: 10, lt: 5}}}\<close> and
  \<^verbatim>\<open>{range: {age: {gte: 0, lte: 120}}}\<close>, and a bound object with two upper bounds.
\<close>

theorem range_bounds_checked_witness:
  "[(''gt'', JNum (Finite 10)), (''lt'', JNum (Finite 5))] \<noteq> []
   \<and> distinct (map fst [(''gt'', JNum (Finite 10)), (''lt'', JNum (Finite 5))])
   \<and> set (map fst [(''gt'', JNum (Finite 10)), (''lt'', JNum (Finite 5))])
        \<subseteq> {''gt'', ''gte'', ''lt'', ''lte''}
   \<and> list_all (\<lambda>x. typeof x = ''number'') (map snd [(''gt'', JNum (Finite 10)), (''lt'', JNum (Finite 5))])
   \<and> \<not> twoLower [(''gt'', JNum (Finite 10)), (''lt'', JNum (Finite 5))]
   \<and> \<not> twoUpper [(''gt'', JNum (Finite 10)), (''lt'', JNum (Finite 5))]
   \<and> standardize sampleEnv (rangeFilter ''age'' [(''gt'', JNum (Finite 10)), (''lt'', JNum (Finite 5))])
       = boundOrderError ''age''
   \<and> standardize sampleEnv (rangeFilter ''age'' [(''gte'', JNum (Finite 0)), (''lte'', JNum (Finite 120))])
       = Resolved (rangeFilter ''age'' [(''gte'', JNum (Finite 0)), (''lte'', JNum (Finite 120))])
   \<and> twoUpper [(''lt'', JNum (Finite 1)), (''lte'', JNum (Finite 2))]
   \<and> list_all finiteBound (map snd [(''lt'', JNum (Finite 1)), (''lte'', JNum (Finite 2))])
   \<and> isRejected (standardize sampleEnv
        (rangeFilter ''age'' [(''lt'', JNum (Finite 1)), (''lte'', JNum (Finite 2))]))"
  using range_bounds_checked [of "[(''gt'', JNum (Finite 10)), (''lt'', JNum (Finite 5))]" sampleEnv "''age''"]
    range_bounds_checked [of "[(''gte'', JNum (Finite 0)), (''lte'', JNum (Finite 120))]" sampleEnv "''age''"]
    range_bounds_checked [of "[(''lt'', JNum (Finite 1)), (''lte'', JNum (Finite 2))]" sampleEnv "''age''"]
  by (simp add: twoLower_def twoUpper_def resolvedHigh_def resolvedLow_def finiteBound_def)

text \<open>
  Claim C4 as stated covers a bound object without any bound, where no bound is doubled
  and the defaults are in order: the filter is rejected all the same.
\<close>

theorem range_empty_bounds_rejected:
  "standardize sampleEnv (rangeFilter ''age'' [])
     = Rejected (BadRequestError ''\"range.age\" must be a non-empty object'')"
  by (simp add: rangeFilter_def standardize_single dispatch_def range_kw_def
      mustBeNonEmptyObject_def onlyOneFieldAttribute_def)

text \<open>
  Outside the amended claim: the loop takes \<open>+\<infinity>\<close> for "no upper bound yet", so a first
  upper bound that is itself infinite hides the second one.
\<close>

lemma range_infinite_first_bound:
  "standardize sampleEnv (rangeFilter ''age'' [(''lt'', JNum Infinity), (''lte'', JNum (Finite 5))])
     = Resolved (rangeFilter ''age'' [(''lt'', JNum Infinity), (''lte'', JNum (Finite 5))])"
  by code_simp

subsection \<open>The entry point\<close>

text \<open>The names under which the lookup of \<open>dispatch\<close> finds something.\<close>

definition dslKeywords :: "string list" where
  "dslKeywords = [''exists'', ''missing'', ''ids'', ''equals'', ''in'', ''range'', ''regexp'',
     ''geoBoundingBox'', ''geoDistance'', ''geoDistanceRange'', ''geoPolygon'',
     ''and'', ''or'', ''not'', ''bool'']"

definition otherMembers :: "string list" where
  "otherMembers = [''standardize'', ''_standardizeFilterArray'', ''constructor'', ''__proto__'',
     ''__defineGetter__'', ''__defineSetter__'', ''hasOwnProperty'', ''isPrototypeOf'',
     ''propertyIsEnumerable'', ''__lookupGetter__'', ''__lookupSetter__'', ''toString'',
     ''toLocaleString'', ''valueOf'']"

text \<open>
  The three cases of the entry point that hold as the specification has them: no key,
  several keys, and one key that is no member of the Standardizer object at all.
\<close>

lemma standardize_no_key:
  "\<not> truthy filters \<or> keys filters = [] \<Longrightarrow> standardize E filters = Resolved (JObj [])"
  by (auto simp: standardize.simps)

lemma standardize_several_keys:
  "truthy filters \<Longrightarrow> length (keys filters) > 1 \<Longrightarrow>
   standardize E filters = Rejected (BadRequestError ''Invalid filter syntax'')"
  by (auto simp: standardize.simps Let_def)

lemma standardize_unknown_keyword:
  assumes "truthy filters" "keys filters = [k]" "k \<notin> set dslKeywords" "k \<notin> set otherMembers"
  shows "standardize E filters = Rejected (BadRequestError (''Unknown DSL keyword: '' @ k))"
proof -
  have "dispatch E (standardize E) k filters
      = Rejected (BadRequestError (''Unknown DSL keyword: '' @ k))"
    using assms(3,4) unfolding dslKeywords_def otherMembers_def dispatch_def by simp
  then show ?thesis using assms(1,2) by (simp add: standardize.simps)
qed

text \<open>
  Claim C3. A filter whose single key is not a DSL keyword is meant to be rejected as an
  unknown keyword. For the name of the private method of the class the lookup succeeds,
  the method is called without operand and throws; for \<^verbatim>\<open>toString\<close> the inherited method
  is called and the text it returns is the result.
\<close>

theorem inherited_member_dispatched:
  "''_standardizeFilterArray'' \<notin> set dslKeywords \<and> ''toString'' \<notin> set dslKeywords
   \<and> standardize E (JObj [(''_standardizeFilterArray'', JObj [])]) = Thrown TypeError
   \<and> standardize E (JObj [(''toString'', JObj [])]) = Resolved (JStr ''[object Object]'')"
  by (simp add: dslKeywords_def standardize_single dispatch_def standardizeFilterArray_def)

subsection \<open>The \<^verbatim>\<open>bool\<close> keyword with a single \<^verbatim>\<open>must\<close> term\<close>

definition existsFilter :: "string \<Rightarrow> jv" where
  "existsFilter f = JObj [(''exists'', JObj [(''field'', JStr f)])]"

text \<open>
  Claim C2. A \<^verbatim>\<open>bool\<close> filter with a \<^verbatim>\<open>must\<close> and a \<^verbatim>\<open>should\<close> array is meant to give the
  \<^verbatim>\<open>and\<close> node of the \<^verbatim>\<open>must\<close> terms followed by the \<^verbatim>\<open>should\<close> disjunction, not a leaf.
  On the filter of the specification, with one \<^verbatim>\<open>must\<close> term, \<^verbatim>\<open>this.and\<close> hands back that
  term unwrapped, \<^verbatim>\<open>standardized.and\<close> is \<^verbatim>\<open>undefined\<close> and the call of \<^verbatim>\<open>concat\<close> throws.
  With two \<^verbatim>\<open>must\<close> terms the result is as claimed.
\<close>

theorem bool_single_must_throws:
  "standardize E (JObj [(''bool'', JObj
       [(''must'', JArr [existsFilter ''a'']),
        (''should'', JArr [existsFilter ''b'', existsFilter ''c''])])])
     = Rejected TypeError
   \<and> standardize E (JObj [(''bool'', JObj
       [(''must'', JArr [existsFilter ''a'', existsFilter ''d'']),
        (''should'', JArr [existsFilter ''b'', existsFilter ''c''])])])
     = Resolved (JObj
         [(''and'', JArr [existsFilter ''a'', existsFilter ''d'',
             JObj [(''or'', JArr [existsFilter ''b'', existsFilter ''c'']),
                   (''_isLeaf'', JBool True)]]),
          (''_isLeaf'', JBool False)])"
  by code_simp

subsection \<open>The shape of the results\<close>

text \<open>
  A leaf flag is a boolean or, once \<^verbatim>\<open>&=\<close> has been applied to it, \<^verbatim>\<open>0\<close> or \<^verbatim>\<open>1\<close>.
\<close>

fun flagLike :: "jv \<Rightarrow> bool" where
  "flagLike (JBool b) = True"
| "flagLike (JNum n) = (n = Finite 0 \<or> n = Finite 1)"
| "flagLike v = False"

text \<open>
  A result is no array; when it is an object with a key \<^verbatim>\<open>and\<close> or \<^verbatim>\<open>or\<close>, that key holds
  an array of results of the same kind and \<^verbatim>\<open>_isLeaf\<close> holds a flag.
\<close>

function wfNode :: "jv \<Rightarrow> bool" where
  "wfNode (JObj kvs) =
     ((map_of kvs ''and'' \<noteq> None \<longrightarrow>
         isArray (getProp (JObj kvs) ''and'') \<and> flagLike (getProp (JObj kvs) ''_isLeaf'')
         \<and> list_all wfNode (elems (getProp (JObj kvs) ''and'')))
    \<and> (map_of kvs ''or'' \<noteq> None \<longrightarrow>
         isArray (getProp (JObj kvs) ''or'') \<and> flagLike (getProp (JObj kvs) ''_isLeaf'')
         \<and> list_all wfNode (elems (getProp (JObj kvs) ''or''))))"
| "wfNode (JArr xs) = False"
| "wfNode JUndefined = True"
| "wfNode JNull = True"
| "wfNode (JBool b) = True"
| "wfNode (JNum n) = True"
| "wfNode (JStr s) = True"
| "wfNode JThis = True"
  by pat_completeness auto
termination
  by (relation "measure size") (auto simp del: getProp.simps dest!: size_elems_getProp)

declare wfNode.simps(1) [simp del]

lemma show_nat_0 [simp]: "show_nat 0 = ''0''"
  by code_simp

lemma firstKey_JStr: "firstKey (JStr s) = Some k \<Longrightarrow> k = ''0''"
  by (cases s) (auto simp: upt_conv_Cons simp del: upt_Suc show_nat.simps)

lemma firstKey_JObj: "firstKey (JObj kvs) = Some k \<Longrightarrow> map_of kvs k \<noteq> None"
  by (cases kvs) auto

lemma wfNode_other:
  "map_of kvs ''and'' = None \<Longrightarrow> map_of kvs ''or'' = None \<Longrightarrow> wfNode (JObj kvs)"
  by (simp add: wfNode.simps del: getProp.simps)

lemma wfNode_node:
  "op = ''and'' \<or> op = ''or'' \<Longrightarrow>
   wfNode (JObj [(op, JArr xs), (''_isLeaf'', fl)]) = (flagLike fl \<and> list_all wfNode xs)"
  by (auto simp: wfNode.simps)

lemma wfNode_key:
  assumes "wfNode (JObj kvs)" "map_of kvs op \<noteq> None" "op = ''and'' \<or> op = ''or''"
  shows "\<exists>ys. getProp (JObj kvs) op = JArr ys \<and> list_all wfNode ys
           \<and> flagLike (getProp (JObj kvs) ''_isLeaf'')"
proof -
  from assms have "isArray (getProp (JObj kvs) op) \<and> flagLike (getProp (JObj kvs) ''_isLeaf'')
               \<and> list_all wfNode (elems (getProp (JObj kvs) op))"
    by (auto simp: wfNode.simps simp del: getProp.simps)
  then show ?thesis by (cases "getProp (JObj kvs) op") auto
qed

lemma wfNode_children:
  assumes "wfNode sub" "firstKey sub = Some op" "op = ''and'' \<or> op = ''or''"
  shows "\<exists>ys. getProp sub op = JArr ys \<and> list_all wfNode ys \<and> flagLike (getProp sub ''_isLeaf'')"
proof (cases sub)
  case (JObj kvs)
  with assms(2) have "map_of kvs op \<noteq> None" using firstKey_JObj [of kvs op] by simp
  from wfNode_key [OF _ this assms(3)] assms(1) JObj show ?thesis by simp
next
  case (JStr s)
  with assms(2,3) firstKey_JStr [of s op] show ?thesis by auto
qed (use assms in auto)

lemma flagLike_bitAnd: "flagLike a \<Longrightarrow> flagLike b \<Longrightarrow> flagLike (bitAnd a b)"
  by (cases a; cases b) (auto simp: bitAnd_def)

lemma truthy_bitAnd:
  "flagLike a \<Longrightarrow> flagLike b \<Longrightarrow> truthy (bitAnd a b) = (truthy a \<and> truthy b)"
  by (cases a; cases b) (auto simp: bitAnd_def)

lemma reducer_wf:
  assumes "list_all wfNode items" "flagLike isLeaf" "wfNode sub" "op = ''and'' \<or> op = ''or''"
    "reducer op (items, isLeaf) sub = Resolved (items', isLeaf')"
  shows "list_all wfNode items' \<and> flagLike isLeaf'"
proof (cases "firstKey sub = Some op")
  case True
  from wfNode_children [OF assms(3) True assms(4)] obtain ys where
    ys: "getProp sub op = JArr ys" "list_all wfNode ys" "flagLike (getProp sub ''_isLeaf'')"
    by blast
  with True assms(1,2,5) show ?thesis
    by (auto simp: reducer_def flagLike_bitAnd split: if_splits)
next
  case False
  with assms(1,2,3,5) show ?thesis
    by (auto simp: reducer_def split: if_splits)
qed

lemma reduce_wf:
  assumes "\<forall>r. Resolved r \<in> set subs \<longrightarrow> wfNode r" "op = ''and'' \<or> op = ''or''"
    "list_all wfNode items" "flagLike isLeaf"
    "reduce op subs (items, isLeaf) = Resolved (items', isLeaf')"
  shows "list_all wfNode items' \<and> flagLike isLeaf'"
  using assms
proof (induction subs arbitrary: items isLeaf)
  case Nil
  then show ?case by simp
next
  case (Cons s subs)
  show ?case
  proof (cases s)
    case (Resolved sub)
    with Cons.prems(5) obtain items1 isLeaf1 where
      step: "reducer op (items, isLeaf) sub = Resolved (items1, isLeaf1)"
      and rest: "reduce op subs (items1, isLeaf1) = Resolved (items', isLeaf')"
      by (cases "reducer op (items, isLeaf) sub") auto
    have "wfNode sub" using Cons.prems(1) Resolved by simp
    from reducer_wf [OF Cons.prems(3,4) this Cons.prems(2) step]
    have "list_all wfNode items1" "flagLike isLeaf1" by simp_all
    from Cons.IH [OF _ Cons.prems(2) this rest] Cons.prems(1) show ?thesis by simp
  next
    case (Rejected e)
    with Cons.prems(5) show ?thesis by simp
  next
    case (Thrown e)
    with Cons.prems(5) show ?thesis by simp
  qed
qed

lemma andThen_Resolved:
  "andThen p f = Resolved r \<longleftrightarrow> (\<exists>v. p = Resolved v \<and> f v = Resolved r)"
  by (cases p) (auto split: outcome.splits)

lemma standardizeFilterArray_wf:
  assumes "\<forall>c\<in>set (elems (getProp flt op)). \<forall>r. std c = Resolved r \<longrightarrow> wfNode r"
    "op = ''and'' \<or> op = ''or''"
    "standardizeFilterArray std flt op = Resolved r"
  shows "wfNode r"
proof -
  let ?subs = "map std (elems (getProp flt op))"
  from assms(3) obtain items isLeaf where
    red: "reduce op ?subs ([], JBool True) = Resolved (items, isLeaf)"
    and res: "r = (if length items = 1 then items ! 0
                   else JObj [(op, JArr items), (''_isLeaf'', isLeaf)])"
    by (auto simp: standardizeFilterArray_def Let_def andThen_Resolved
        split: if_splits outcome.splits bool.splits option.splits)
  have "\<forall>r. Resolved r \<in> set ?subs \<longrightarrow> wfNode r" using assms(1) by auto
  from reduce_wf [OF this assms(2) _ _ red]
  have wf: "list_all wfNode items" "flagLike isLeaf" by simp_all
  show ?thesis
  proof (cases "length items = 1")
    case True
    then obtain x where "items = [x]" by (cases items) auto
    with wf res show ?thesis by simp
  next
    case False
    with res wf assms(2) show ?thesis by (simp add: wfNode_node)
  qed
qed


lemma and_kw_wf:
  assumes "\<forall>c\<in>set (elems (getProp flt ''and'')). \<forall>r. std c = Resolved r \<longrightarrow> wfNode r"
    "and_kw std flt keyword = Resolved r"
  shows "wfNode r"
  using assms(2) standardizeFilterArray_wf [OF assms(1), of r]
  by (auto simp: and_kw_def andThen_Resolved)

lemma or_kw_wf:
  assumes "\<forall>c\<in>set (elems (getProp flt ''or'')). \<forall>r. std c = Resolved r \<longrightarrow> wfNode r"
    "or_kw std flt keyword = Resolved r"
  shows "wfNode r"
  using assms(2) standardizeFilterArray_wf [OF assms(1), of r]
  by (auto simp: or_kw_def andThen_Resolved)

lemma not_kw_wf: "not_kw std flt = Resolved r \<Longrightarrow> wfNode r"
  by (auto simp: not_kw_def andThen_Resolved Let_def wfNode_other)

lemma map_of_setEntry [simp]:
  "map_of (setEntry kvs k v) k' = (if k' = k then Some v else map_of kvs k')"
  by (induction kvs) auto

lemma boolAppend_wf:
  assumes "wfNode st" "wfNode x" "boolAppend st x = Resolved st'"
  shows "wfNode st'"
proof -
  from assms(3) obtain xs where xs: "getProp st ''and'' = JArr xs"
    and st': "st' = setProp (setProp st ''and'' (JArr (concatJs xs x))) ''_isLeaf'' (JBool False)"
    by (auto simp: boolAppend_def split: jv.splits)
  from xs obtain kvs where kvs: "st = JObj kvs" by (cases st) auto
  from assms(2) have cx: "concatJs xs x = xs @ [x]" by (cases x) auto
  from xs kvs have a: "map_of kvs ''and'' \<noteq> None" by (auto split: option.splits)
  from wfNode_key [OF _ a] assms(1) kvs xs have wxs: "list_all wfNode xs" by auto
  have "map_of kvs ''or'' \<noteq> None \<Longrightarrow>
          isArray (getProp (JObj kvs) ''or'') \<and> list_all wfNode (elems (getProp (JObj kvs) ''or''))"
    using wfNode_key [of kvs "''or''"] assms(1) kvs by auto
  then show ?thesis
    using wxs assms(2) unfolding st' kvs cx by (auto simp: wfNode.simps)
qed

lemma getProp_and_cases:
  assumes "wfNode st"
  shows "getProp st ''and'' = JUndefined \<or> (\<exists>xs. getProp st ''and'' = JArr xs \<and> list_all wfNode xs)"
proof (cases st)
  case (JObj kvs)
  show ?thesis
  proof (cases "map_of kvs ''and''")
    case None
    with JObj show ?thesis by simp
  next
    case (Some y)
    then have "map_of kvs ''and'' \<noteq> None" by simp
    from wfNode_key [OF _ this] assms JObj show ?thesis by auto
  qed
qed auto

lemma boolFinish_wf:
  assumes "wfNode st" "boolFinish st = Resolved r"
  shows "wfNode r"
proof -
  from getProp_and_cases [OF assms(1)] consider "getProp st ''and'' = JUndefined"
    | xs where "getProp st ''and'' = JArr xs" "list_all wfNode xs" by blast
  then show ?thesis
  proof cases
    case 1
    with assms show ?thesis by (auto simp: boolFinish_def split: if_splits)
  next
    case 2
    show ?thesis
    proof (cases "length xs = 1")
      case True
      then obtain x where "xs = [x]" by (cases xs) auto
      with 2 assms show ?thesis by (auto simp: boolFinish_def split: if_splits)
    next
      case False
      with 2 assms show ?thesis by (auto simp: boolFinish_def split: if_splits)
    qed
  qed
qed


text \<open>The callbacks of \<^verbatim>\<open>bool\<close> after the first, from the last one backwards.\<close>

definition boolShouldNot :: "jv \<Rightarrow> jv \<Rightarrow> jv outcome" where
  "boolShouldNot standardized f =
     andThen (if truthy f then boolAppend standardized (JObj [(''not'', f)])
              else Resolved standardized) boolFinish"

definition boolShould :: "(jv \<Rightarrow> jv outcome) \<Rightarrow> jv \<Rightarrow> jv \<Rightarrow> jv \<Rightarrow> jv outcome" where
  "boolShould std b standardized f =
     andThen (if truthy f then boolAppend standardized f else Resolved standardized)
       (\<lambda>standardized.
          andThen (if truthy (getProp b ''should_not'')
                   then and_kw std (JObj [(''and'', getProp b ''should_not'')]) ''and''
                   else Resolved JNull) (boolShouldNot standardized))"

definition boolMustNot :: "(jv \<Rightarrow> jv outcome) \<Rightarrow> jv \<Rightarrow> jv \<Rightarrow> jv \<Rightarrow> jv outcome" where
  "boolMustNot std b standardized f =
     andThen (if truthy f then boolAppend standardized (JObj [(''not'', f)])
              else Resolved standardized)
       (\<lambda>standardized.
          andThen (if truthy (getProp b ''should'')
                   then or_kw std (JObj [(''or'', getProp b ''should'')]) ''or''
                   else Resolved JNull) (boolShould std b standardized))"

definition boolMust :: "(jv \<Rightarrow> jv outcome) \<Rightarrow> jv \<Rightarrow> jv \<Rightarrow> jv outcome" where
  "boolMust std b f =
     andThen (if truthy (getProp b ''must_not'')
              then or_kw std (JObj [(''or'', getProp b ''must_not'')]) ''or''
              else Resolved JNull)
       (boolMustNot std b
          (if truthy f then f else JObj [(''and'', JArr []), (''_isLeaf'', JBool True)]))"

lemma bool_kw_staged:
  "bool_kw std flt =
     andThen (mustBeNonEmptyObject (getProp flt ''bool'') ''bool'') (\<lambda>flds.
     andThen (if list_ex (\<lambda>f. f \<notin> set [''must'', ''must_not'', ''should'', ''should_not'']) flds
              then Rejected (BadRequestError
                ''\"bool\" operand accepts only the following attributes: must, must_not, should, should_not'')
              else if truthy (getProp (getProp flt ''bool'') ''must'')
              then and_kw std (JObj [(''and'', getProp (getProp flt ''bool'') ''must'')]) ''and''
              else Resolved JNull)
       (boolMust std (getProp flt ''bool'')))"
  unfolding bool_kw_def boolMust_def boolMustNot_def boolShould_def boolShouldNot_def Let_def
  by (rule refl)

lemma andThenE:
  assumes "andThen p f = Resolved r"
  obtains v where "p = Resolved v" "f v = Resolved r"
  using assms by (auto simp: andThen_Resolved)

lemma bool_kw_wf:
  assumes ch: "\<And>k c r. c \<in> set (elems (getProp (getProp flt ''bool'') k)) \<Longrightarrow>
                 std c = Resolved r \<Longrightarrow> wfNode r"
    and res: "bool_kw std flt = Resolved r"
  shows "wfNode r"
proof -
  let ?b = "getProp flt ''bool''"
  have A: "wfNode f" if "and_kw std (JObj [(''and'', getProp ?b k)]) kw = Resolved f" for k kw f
    by (rule and_kw_wf [OF _ that]) (auto intro: ch)
  have O: "wfNode f" if "or_kw std (JObj [(''or'', getProp ?b k)]) kw = Resolved f" for k kw f
    by (rule or_kw_wf [OF _ that]) (auto intro: ch)
  have N: "wfNode (JObj [(''not'', f)])" for f by (simp add: wfNode_other)
  have I: "wfNode (JObj [(''and'', JArr []), (''_isLeaf'', JBool True)])"
    by (simp add: wfNode_node)
  have S4: "wfNode r" if "wfNode st" "boolShouldNot st f = Resolved r" for st f r
  proof -
    from that(2) obtain st' where
      a: "(if truthy f then boolAppend st (JObj [(''not'', f)]) else Resolved st) = Resolved st'"
      and b: "boolFinish st' = Resolved r"
      unfolding boolShouldNot_def by (rule andThenE)
    from a boolAppend_wf [OF that(1) N] that(1) have "wfNode st'" by (auto split: if_splits)
    from boolFinish_wf [OF this b] show ?thesis .
  qed
  have S3: "wfNode r" if "wfNode st" "wfNode f" "boolShould std ?b st f = Resolved r" for st f r
  proof -
    from that(3) obtain st' where
      a: "(if truthy f then boolAppend st f else Resolved st) = Resolved st'"
      and b: "andThen (if truthy (getProp ?b ''should_not'')
                   then and_kw std (JObj [(''and'', getProp ?b ''should_not'')]) ''and''
                   else Resolved JNull) (boolShouldNot st') = Resolved r"
      unfolding boolShould_def by (rule andThenE)
    from a boolAppend_wf [OF that(1,2)] that(1) have w: "wfNode st'" by (auto split: if_splits)
    from b obtain f' where "boolShouldNot st' f' = Resolved r" by (rule andThenE)
    from S4 [OF w this] show ?thesis .
  qed
  have S2: "wfNode r" if "wfNode st" "boolMustNot std ?b st f = Resolved r" for st f r
  proof -
    from that(2) obtain st' where
      a: "(if truthy f then boolAppend st (JObj [(''not'', f)]) else Resolved st) = Resolved st'"
      and b: "andThen (if truthy (getProp ?b ''should'')
                   then or_kw std (JObj [(''or'', getProp ?b ''should'')]) ''or''
                   else Resolved JNull) (boolShould std ?b st') = Resolved r"
      unfolding boolMustNot_def by (rule andThenE)
    from a boolAppend_wf [OF that(1) N] that(1) have w: "wfNode st'" by (auto split: if_splits)
    from b obtain f' where
      c: "(if truthy (getProp ?b ''should'')
           then or_kw std (JObj [(''or'', getProp ?b ''should'')]) ''or''
           else Resolved JNull) = Resolved f'"
      and d: "boolShould std ?b st' f' = Resolved r" by (rule andThenE)
    from c O have "wfNode f'" by (auto split: if_splits)
    from S3 [OF w this d] show ?thesis .
  qed
  have S1: "wfNode r" if "wfNode f" "boolMust std ?b f = Resolved r" for f r
  proof -
    from that(2) obtain f' where
      "boolMustNot std ?b
          (if truthy f then f else JObj [(''and'', JArr []), (''_isLeaf'', JBool True)]) f'
        = Resolved r"
      unfolding boolMust_def by (rule andThenE)
    moreover have "wfNode (if truthy f then f
                           else JObj [(''and'', JArr []), (''_isLeaf'', JBool True)])"
      using that(1) I by simp
    ultimately show ?thesis using S2 by blast
  qed
  from res obtain flds where
    "andThen (if list_ex (\<lambda>f. f \<notin> set [''must'', ''must_not'', ''should'', ''should_not'']) flds
              then Rejected (BadRequestError
                ''\"bool\" operand accepts only the following attributes: must, must_not, should, should_not'')
              else if truthy (getProp ?b ''must'')
              then and_kw std (JObj [(''and'', getProp ?b ''must'')]) ''and''
              else Resolved JNull)
       (boolMust std ?b) = Resolved r"
    unfolding bool_kw_staged by (rule andThenE)
  then obtain f where
    c: "(if list_ex (\<lambda>f. f \<notin> set [''must'', ''must_not'', ''should'', ''should_not'']) flds
              then Rejected (BadRequestError
                ''\"bool\" operand accepts only the following attributes: must, must_not, should, should_not'')
              else if truthy (getProp ?b ''must'')
              then and_kw std (JObj [(''and'', getProp ?b ''must'')]) ''and''
              else Resolved JNull) = Resolved f"
    and d: "boolMust std ?b f = Resolved r" by (rule andThenE)
  from c A have "wfNode f" by (auto split: if_splits)
  from S1 [OF this d] show ?thesis .
qed


text \<open>The validators that hand back their argument, and the shapes the others build.\<close>

lemma exists_result: "exists flt name = Resolved r \<Longrightarrow> r = flt"
  by (auto simp: exists_def andThen_Resolved split: if_splits)

lemma equals_result: "equals flt = Resolved r \<Longrightarrow> r = flt"
  by (auto simp: equals_def andThen_Resolved)

lemma range_kw_result: "range_kw flt = Resolved r \<Longrightarrow> r = flt"
  by (auto simp: range_kw_def andThen_Resolved Let_def
      split: if_splits option.splits prod.splits)

lemma regexp_result: "regexp E flt = Resolved r \<Longrightarrow> r = flt"
  by (auto simp: regexp_def andThen_Resolved Let_def split: if_splits option.splits)

lemma wfNode_equals_leaves:
  "list_all wfNode (map (\<lambda>v. JObj [(''equals'', JObj [(k, v)])]) vs)"
  by (simp add: list_all_iff wfNode_other)

lemma ids_wf: "ids flt = Resolved r \<Longrightarrow> wfNode r"
  by (auto simp: ids_def andThen_Resolved wfNode_node wfNode_equals_leaves split: if_splits)

lemma in_kw_wf: "in_kw flt = Resolved r \<Longrightarrow> wfNode r"
  by (auto simp: in_kw_def andThen_Resolved Let_def wfNode_node wfNode_equals_leaves
      split: if_splits)

lemma missing_wf: "missing flt = Resolved r \<Longrightarrow> wfNode r"
  by (auto simp: missing_def andThen_Resolved wfNode_other)

lemma geoBoundingBox_wf: "geoBoundingBox E flt = Resolved r \<Longrightarrow> wfNode r"
  by (auto simp: geoBoundingBox_def andThen_Resolved Let_def wfNode_other split: if_splits)

lemma geoDistance_wf: "geoDistance E flt = Resolved r \<Longrightarrow> wfNode r"
  by (auto simp: geoDistance_def andThen_Resolved Let_def wfNode_other
      split: if_splits sum.splits)

lemma geoDistanceRange_wf: "geoDistanceRange E flt = Resolved r \<Longrightarrow> wfNode r"
  by (auto simp: geoDistanceRange_def andThen_Resolved Let_def wfNode_other
      split: if_splits sum.splits)

lemma geoPolygon_wf: "geoPolygon E flt = Resolved r \<Longrightarrow> wfNode r"
  by (auto simp: geoPolygon_def andThen_Resolved Let_def wfNode_other split: if_splits)


lemma keys_single:
  assumes "keys f = [k]" "k \<noteq> ''0''"
  shows "\<exists>v. f = JObj [(k, v)]"
proof (cases f)
  case (JObj kvs)
  with assms(1) show ?thesis by (cases kvs) auto
next
  case (JArr xs)
  with assms show ?thesis
    by (cases xs) (auto simp: upt_conv_Cons simp del: upt_Suc show_nat.simps)
next
  case (JStr s)
  with assms show ?thesis
    by (cases s) (auto simp: upt_conv_Cons simp del: upt_Suc show_nat.simps)
qed (use assms in auto)

lemma dispatch_wf:
  assumes f: "filters = JObj [(k, v)]"
    and ch: "\<And>c r. size c < size filters \<Longrightarrow> std c = Resolved r \<Longrightarrow> wfNode r"
    and res: "dispatch E std k filters = Resolved r"
  shows "wfNode r"
proof -
  have self: "k \<noteq> ''and'' \<Longrightarrow> k \<noteq> ''or'' \<Longrightarrow> wfNode filters"
    unfolding f by (simp add: wfNode_other)
  have a: "wfNode r" if "and_kw std filters kw = Resolved r" for kw
    by (rule and_kw_wf [OF _ that]) (auto intro: ch dest: size_elems_getProp)
  have b: "wfNode r" if "or_kw std filters kw = Resolved r" for kw
    by (rule or_kw_wf [OF _ that]) (auto intro: ch dest: size_elems_getProp)
  have c: "wfNode r" if "bool_kw std filters = Resolved r"
    by (rule bool_kw_wf [OF _ that]) (auto intro: ch dest: size_elems2)
  have d: "standardizeFilterArray std filters ''undefined'' \<noteq> Resolved r"
    if "k = ''_standardizeFilterArray''"
    unfolding f that by (simp add: standardizeFilterArray_def)
  consider "k = ''exists''" | "k = ''ids''" | "k = ''missing''" | "k = ''range''"
    | "k = ''regexp''" | "k = ''equals''" | "k = ''in''" | "k = ''geoBoundingBox''"
    | "k = ''geoDistance''" | "k = ''geoDistanceRange''" | "k = ''geoPolygon''"
    | "k = ''and''" | "k = ''or''" | "k = ''not''" | "k = ''bool''"
    | "k = ''_standardizeFilterArray''"
    | "k \<notin> set [''exists'', ''ids'', ''missing'', ''range'', ''regexp'', ''equals'', ''in'',
         ''geoBoundingBox'', ''geoDistance'', ''geoDistanceRange'', ''geoPolygon'',
         ''and'', ''or'', ''not'', ''bool'', ''_standardizeFilterArray'']"
    by auto
  then show ?thesis
  proof cases
    case 1 with res self exists_result show ?thesis by (auto simp: dispatch_def)
  next
    case 2 with res ids_wf show ?thesis by (auto simp: dispatch_def)
  next
    case 3 with res missing_wf show ?thesis by (auto simp: dispatch_def)
  next
    case 4 with res self range_kw_result show ?thesis by (auto simp: dispatch_def)
  next
    case 5 with res self regexp_result show ?thesis by (auto simp: dispatch_def)
  next
    case 6 with res self equals_result show ?thesis by (auto simp: dispatch_def)
  next
    case 7 with res in_kw_wf show ?thesis by (auto simp: dispatch_def)
  next
    case 8 with res geoBoundingBox_wf show ?thesis by (auto simp: dispatch_def)
  next
    case 9 with res geoDistance_wf show ?thesis by (auto simp: dispatch_def)
  next
    case 10 with res geoDistanceRange_wf show ?thesis by (auto simp: dispatch_def)
  next
    case 11 with res geoPolygon_wf show ?thesis by (auto simp: dispatch_def)
  next
    case 12 with res a show ?thesis by (auto simp: dispatch_def)
  next
    case 13 with res b show ?thesis by (auto simp: dispatch_def)
  next
    case 14 with res not_kw_wf show ?thesis by (auto simp: dispatch_def)
  next
    case 15 with res c show ?thesis by (auto simp: dispatch_def)
  next
    case 16 with res d show ?thesis by (auto simp: dispatch_def)
  next
    case 17
    then have "dispatch E std k filters \<in> {Thrown RangeError, Thrown TypeError,
        Resolved (JBool False), Resolved JUndefined, Resolved (JStr ''[object Object]''),
        Resolved JThis, Rejected (BadRequestError (''Unknown DSL keyword: '' @ k))}"
      by (simp add: dispatch_def)
    with res show ?thesis by auto
  qed
qed

lemma standardize_wf: "standardize E f = Resolved r \<Longrightarrow> wfNode r"
proof (induction f arbitrary: r rule: measure_induct_rule [of size])
  case (less f)
  show ?case
  proof (cases "\<not> truthy f \<or> keys f = []")
    case True
    with less.prems standardize_no_key [OF True, of E] show ?thesis
      by (auto simp: wfNode_other)
  next
    case False
    then have t: "truthy f" "keys f \<noteq> []" by auto
    show ?thesis
    proof (cases "length (keys f) > 1")
      case True
      from standardize_several_keys [OF t(1) True, of E] less.prems show ?thesis by simp
    next
      case False
      with t(2) obtain k where k: "keys f = [k]" by (cases "keys f") auto
      with t(1) less.prems have d: "dispatch E (standardize E) k f = Resolved r"
        by (simp add: standardize.simps)
      show ?thesis
      proof (cases "k = ''0''")
        case True
        with d show ?thesis by (simp add: dispatch_def)
      next
        case False
        from keys_single [OF k False] obtain v where "f = JObj [(k, v)]" by blast
        from dispatch_wf [OF this _ d] less.IH show ?thesis by blast
      qed
    qed
  qed
qed

subsection \<open>The flattening algorithm\<close>

text \<open>
  The algorithm in the words of the specification, on the standardized sub-results.
  The leaf flag of a node is the truth value of its \<^verbatim>\<open>_isLeaf\<close>; the children of a node
  are the items of the array under its operand.
\<close>

definition leafFlag :: "jv \<Rightarrow> bool" where
  "leafFlag v = truthy (getProp v ''_isLeaf'')"

definition children :: "jv \<Rightarrow> string \<Rightarrow> jv list" where
  "children v operand = elems (getProp v operand)"

fun flatten :: "string \<Rightarrow> jv list \<Rightarrow> jv list \<times> bool \<Rightarrow> jv list \<times> bool" where
  "flatten operand [] (acc, leaf) = (acc, leaf)"
| "flatten operand (sub # subs) (acc, leaf) =
     (if firstKey sub = Some operand
      then flatten operand subs (acc @ children sub operand, leaf \<and> leafFlag sub)
      else flatten operand subs (acc @ [sub],
             if firstKey sub = Some ''and'' \<or> firstKey sub = Some ''or'' then False else leaf))"

text \<open>An item the combinators accept: a non-empty object that is no array.\<close>

definition nonEmptyObject :: "jv \<Rightarrow> bool" where
  "nonEmptyObject c = (typeof c = ''object'' \<and> \<not> isArray c \<and> c \<noteq> JNull \<and> keys c \<noteq> [])"

lemma badItem_ok: "list_all nonEmptyObject cs \<Longrightarrow> badItem cs = Resolved False"
  by (induction cs) (auto simp: nonEmptyObject_def)

lemma firstThrown_Resolved: "firstThrown (map Resolved rs) = None"
  by (induction rs) auto

lemma reduce_flatten:
  assumes "list_all wfNode rs" "list_all (\<lambda>r. \<not> nullish r) rs" "flagLike fl"
    "op = ''and'' \<or> op = ''or''"
  shows "\<exists>fl'. flagLike fl' \<and> reduce op (map Resolved rs) (items, fl) = Resolved (fst (flatten op rs (items, truthy fl)), fl')
           \<and> truthy fl' = snd (flatten op rs (items, truthy fl))"
  using assms(1,2,3)
proof (induction rs arbitrary: items fl)
  case Nil
  then show ?case by simp
next
  case (Cons sub rs)
  then have wf: "wfNode sub" and nn: "\<not> nullish sub" by simp_all
  show ?case
  proof (cases "firstKey sub = Some op")
    case True
    from wfNode_children [OF wf True assms(4)] obtain ys where
      ys: "getProp sub op = JArr ys" "flagLike (getProp sub ''_isLeaf'')" by blast
    have step: "reducer op (items, fl) sub
                  = Resolved (items @ children sub op, bitAnd fl (getProp sub ''_isLeaf''))"
      using True nn ys by (simp add: reducer_def children_def)
    have fl1: "flagLike (bitAnd fl (getProp sub ''_isLeaf''))"
      using Cons.prems(3) ys(2) by (rule flagLike_bitAnd)
    have t: "truthy (bitAnd fl (getProp sub ''_isLeaf'')) = (truthy fl \<and> leafFlag sub)"
      using truthy_bitAnd [OF Cons.prems(3) ys(2)] by (simp add: leafFlag_def)
    from Cons.IH [OF _ _ fl1, of "items @ children sub op"] Cons.prems(1,2)
    show ?thesis using True step t by simp
  next
    case False
    let ?fl = "if firstKey sub \<in> {Some ''and'', Some ''or''} then JBool False else fl"
    have step: "reducer op (items, fl) sub = Resolved (items @ [sub], ?fl)"
      using False nn by (simp add: reducer_def)
    have fl1: "flagLike ?fl" using Cons.prems(3) by simp
    have t: "truthy ?fl = (if firstKey sub = Some ''and'' \<or> firstKey sub = Some ''or''
                           then False else truthy fl)" by simp
    from Cons.IH [OF _ _ fl1, of "items @ [sub]"] Cons.prems(1,2)
    show ?thesis using False step t by (simp del: firstKey.simps)
  qed
qed


lemma flatten_items:
  "x \<in> set (fst (flatten op rs (acc, leaf))) \<Longrightarrow>
     x \<in> set acc \<or> (x \<in> set rs \<and> firstKey x \<noteq> Some op)
     \<or> (\<exists>sub\<in>set rs. firstKey sub = Some op \<and> x \<in> set (children sub op))"
proof (induction rs arbitrary: acc leaf)
  case Nil
  then show ?case by simp
next
  case (Cons sub rs)
  show ?case
  proof (cases "firstKey sub = Some op")
    case True
    with Cons.prems have "x \<in> set (fst (flatten op rs (acc @ children sub op, leaf \<and> leafFlag sub)))"
      by simp
    from Cons.IH [OF this] True show ?thesis by (auto simp del: firstKey.simps)
  next
    case False
    with Cons.prems obtain l where "x \<in> set (fst (flatten op rs (acc @ [sub], l)))"
      by (simp del: firstKey.simps)
    from Cons.IH [OF this] False show ?thesis by (auto simp del: firstKey.simps)
  qed
qed

lemma standardizeFilterArray_flatten:
  assumes op: "op = ''and'' \<or> op = ''or''"
    and cs: "list_all nonEmptyObject cs"
    and rs: "map std cs = map Resolved rs" "list_all wfNode rs" "list_all (\<lambda>r. \<not> nullish r) rs"
  shows "\<exists>fl. truthy fl = snd (flatten op rs ([], True)) \<and>
     standardizeFilterArray std (JObj [(op, JArr cs)]) op =
       Resolved (let acc = fst (flatten op rs ([], True)) in
                 if length acc = 1 then acc ! 0
                 else JObj [(op, JArr acc), (''_isLeaf'', fl)])"
proof -
  from reduce_flatten [OF rs(2,3) _ op, of "JBool True" "[]"] obtain fl where
    fl: "reduce op (map Resolved rs) ([], JBool True)
           = Resolved (fst (flatten op rs ([], True)), fl)"
        "truthy fl = snd (flatten op rs ([], True))" by auto
  have "standardizeFilterArray std (JObj [(op, JArr cs)]) op =
       Resolved (let acc = fst (flatten op rs ([], True)) in
                 if length acc = 1 then acc ! 0
                 else JObj [(op, JArr acc), (''_isLeaf'', fl)])"
    using badItem_ok [OF cs] rs(1) fl(1)
    by (simp add: standardizeFilterArray_def firstThrown_Resolved Let_def)
  with fl(2) show ?thesis by blast
qed

lemma standardize_flatten:
  assumes "op = ''and'' \<or> op = ''or''" and "cs \<noteq> []" and "list_all nonEmptyObject cs"
    and "map (standardize E) cs = map Resolved rs" and "list_all (\<lambda>r. \<not> nullish r) rs"
  shows "\<exists>fl. truthy fl = snd (flatten op rs ([], True)) \<and>
      standardize E (JObj [(op, JArr cs)]) =
        Resolved (let acc = fst (flatten op rs ([], True)) in
                  if length acc = 1 then acc ! 0
                  else JObj [(op, JArr acc), (''_isLeaf'', fl)])"
proof -
  have "\<exists>c. standardize E c = Resolved r" if "r \<in> set rs" for r
  proof -
    from that have "Resolved r \<in> set (map Resolved rs)" by simp
    then have "Resolved r \<in> set (map (standardize E) cs)" by (simp only: assms(4))
    then show ?thesis by auto
  qed
  then have "wfNode r" if "r \<in> set rs" for r
    using that standardize_wf [of E _ r] by blast
  then have wf: "list_all wfNode rs" by (simp add: list_all_iff)
  from standardizeFilterArray_flatten [OF assms(1,3,4) wf assms(5)] obtain fl where
    fl: "truthy fl = snd (flatten op rs ([], True))"
      "standardizeFilterArray (standardize E) (JObj [(op, JArr cs)]) op =
         Resolved (let acc = fst (flatten op rs ([], True)) in
                   if length acc = 1 then acc ! 0
                   else JObj [(op, JArr acc), (''_isLeaf'', fl)])" by blast
  have "standardize E (JObj [(op, JArr cs)])
          = standardizeFilterArray (standardize E) (JObj [(op, JArr cs)]) op"
  proof -
    have a: "andThen (Resolved ()) (\<lambda>_. p) = p" if "\<forall>e. p \<noteq> Thrown e" for p :: "jv outcome"
      using that by (cases p) auto
    from fl(2) have nt: "\<forall>e. standardizeFilterArray (standardize E) (JObj [(op, JArr cs)]) op \<noteq> Thrown e"
      by simp
    from assms(1) show ?thesis
    proof
      assume "op = ''and''"
      with assms(2) a [OF nt] show ?thesis
        by (simp add: standardize_single dispatch_def and_kw_def mustBeNonEmptyArray_def)
    next
      assume "op = ''or''"
      with assms(2) a [OF nt] show ?thesis
        by (simp add: standardize_single dispatch_def or_kw_def mustBeNonEmptyArray_def)
    qed
  qed
  with fl show ?thesis by auto
qed

text \<open>
  Claim C1, amended. An \<^verbatim>\<open>and\<close> (resp. \<^verbatim>\<open>or\<close>) filter over a non-empty array of
  non-empty objects, each of which standardizes successfully, gives what the flattening
  algorithm gives on the sub-results: the unwrapped item when one item is left, and
  otherwise the node of the operand over the accumulated items, whose leaf flag is the
  accumulated flag. A sub-result whose key is the operand is not kept as a child, its
  children are spliced in, one level deep: every item is a sub-result with another key or a
  child of a sub-result with that key; and when no sub-result with that key has a child
  with that key, no item has it.
\<close>

theorem and_or_flattened:
  assumes "op = ''and'' \<or> op = ''or''" and "cs \<noteq> []" and "list_all nonEmptyObject cs"
    and "map (standardize E) cs = map Resolved rs" and "list_all (\<lambda>r. \<not> nullish r) rs"
  shows "(\<exists>fl. truthy fl = snd (flatten op rs ([], True)) \<and>
      standardize E (JObj [(op, JArr cs)]) =
        Resolved (let acc = fst (flatten op rs ([], True)) in
                  if length acc = 1 then acc ! 0
                  else JObj [(op, JArr acc), (''_isLeaf'', fl)]))
    \<and> (\<forall>x\<in>set (fst (flatten op rs ([], True))).
          (x \<in> set rs \<and> firstKey x \<noteq> Some op)
          \<or> (\<exists>sub\<in>set rs. firstKey sub = Some op \<and> x \<in> set (children sub op)))
    \<and> ((\<forall>sub\<in>set rs. firstKey sub = Some op \<longrightarrow>
            (\<forall>x\<in>set (children sub op). firstKey x \<noteq> Some op))
         \<longrightarrow> (\<forall>x\<in>set (fst (flatten op rs ([], True))). firstKey x \<noteq> Some op))"
proof -
  have items: "\<forall>x\<in>set (fst (flatten op rs ([], True))).
          (x \<in> set rs \<and> firstKey x \<noteq> Some op)
          \<or> (\<exists>sub\<in>set rs. firstKey sub = Some op \<and> x \<in> set (children sub op))"
    using flatten_items [of _ op rs "[]" True] by auto
  then have "(\<forall>sub\<in>set rs. firstKey sub = Some op \<longrightarrow>
            (\<forall>x\<in>set (children sub op). firstKey x \<noteq> Some op))
         \<longrightarrow> (\<forall>x\<in>set (fst (flatten op rs ([], True))). firstKey x \<noteq> Some op)"
    by blast
  with items standardize_flatten [OF assms] show ?thesis by blast
qed

text \<open>
  The instance of the specification,
  \<^verbatim>\<open>{and: [{and: [{exists: {field: "a"}}, {exists: {field: "b"}}]}, {exists: {field: "c"}}]}\<close>:
  one \<^verbatim>\<open>and\<close> node with three children. Its \<^verbatim>\<open>_isLeaf\<close> is the number \<^verbatim>\<open>1\<close> that
  \<^verbatim>\<open>&=\<close> leaves, which is true as a flag.
\<close>

theorem and_or_flattened_witness:
  "list_all nonEmptyObject
     [JObj [(''and'', JArr [existsFilter ''a'', existsFilter ''b''])], existsFilter ''c'']
   \<and> map (standardize sampleEnv)
         [JObj [(''and'', JArr [existsFilter ''a'', existsFilter ''b''])], existsFilter ''c'']
       = map Resolved
         [JObj [(''and'', JArr [existsFilter ''a'', existsFilter ''b'']), (''_isLeaf'', JBool True)],
          existsFilter ''c'']
   \<and> (\<exists>fl. truthy fl \<and>
         standardize sampleEnv (JObj [(''and'', JArr
           [JObj [(''and'', JArr [existsFilter ''a'', existsFilter ''b''])], existsFilter ''c''])])
         = Resolved (JObj [(''and'', JArr [existsFilter ''a'', existsFilter ''b'', existsFilter ''c'']),
                           (''_isLeaf'', fl)]))
   \<and> standardize sampleEnv (JObj [(''and'', JArr
           [JObj [(''and'', JArr [existsFilter ''a'', existsFilter ''b''])], existsFilter ''c''])])
       = Resolved (JObj [(''and'', JArr [existsFilter ''a'', existsFilter ''b'', existsFilter ''c'']),
                         (''_isLeaf'', JNum (Finite 1))])"
proof -
  let ?cs = "[JObj [(''and'', JArr [existsFilter ''a'', existsFilter ''b''])], existsFilter ''c'']"
  let ?rs = "[JObj [(''and'', JArr [existsFilter ''a'', existsFilter ''b'']), (''_isLeaf'', JBool True)],
          existsFilter ''c'']"
  have h1: "list_all nonEmptyObject ?cs"
    by (simp add: nonEmptyObject_def existsFilter_def)
  have h2: "map (standardize sampleEnv) ?cs = map Resolved ?rs"
    by code_simp
  have h3: "list_all (\<lambda>r. \<not> nullish r) ?rs"
    by (simp add: existsFilter_def)
  have ev: "standardize sampleEnv (JObj [(''and'', JArr ?cs)])
       = Resolved (JObj [(''and'', JArr [existsFilter ''a'', existsFilter ''b'', existsFilter ''c'']),
                         (''_isLeaf'', JNum (Finite 1))])"
    by code_simp
  from and_or_flattened [OF _ _ h1 h2 h3, of "''and''"]
  have "\<exists>fl. truthy fl \<and> standardize sampleEnv (JObj [(''and'', JArr ?cs)])
         = Resolved (JObj [(''and'', JArr [existsFilter ''a'', existsFilter ''b'', existsFilter ''c'']),
                           (''_isLeaf'', fl)])"
    by (simp add: existsFilter_def children_def leafFlag_def)
  with h1 h2 ev show ?thesis by blast
qed

text \<open>
  Claim C1 as stated concludes that same-operand expressions never nest. \<^verbatim>\<open>bool\<close> appends
  the result of its \<^verbatim>\<open>should\<close> part as it is; when that part has one item, an \<^verbatim>\<open>and\<close>,
  the \<^verbatim>\<open>and\<close> node of \<^verbatim>\<open>bool\<close> holds an \<^verbatim>\<open>and\<close> child, and the enclosing \<^verbatim>\<open>and\<close>
  splices one level only. The filter is
  \<^verbatim>\<open>{and: [{bool: {must: [a, b], should: [{and: [c, d]}]}}, e]}\<close>, each letter an \<^verbatim>\<open>exists\<close>.
\<close>

theorem bool_should_and_stays_nested:
  "standardize sampleEnv (JObj [(''and'', JArr
      [JObj [(''bool'', JObj [(''must'', JArr [existsFilter ''a'', existsFilter ''b'']),
                              (''should'', JArr [JObj [(''and'',
                                 JArr [existsFilter ''c'', existsFilter ''d''])]])])],
       existsFilter ''e''])])
   = Resolved (JObj [(''and'', JArr
       [existsFilter ''a'', existsFilter ''b'',
        JObj [(''and'', JArr [existsFilter ''c'', existsFilter ''d'']), (''_isLeaf'', JBool True)],
        existsFilter ''e'']),
      (''_isLeaf'', JNum (Finite 0))])"
  by code_simp

subsection \<open>Unwrapping a single item\<close>

text \<open>
  The node \<^verbatim>\<open>bool\<close> accumulates when no \<^verbatim>\<open>must\<close> seeds it: an \<^verbatim>\<open>and\<close> over the items
  appended so far, a leaf only while there are none.
\<close>

definition boolNode :: "jv list \<Rightarrow> jv" where
  "boolNode items = JObj [(''and'', JArr items), (''_isLeaf'', JBool (items = []))]"

text \<open>An attribute of \<^verbatim>\<open>bool\<close>, standardized as the given operand when it is present.\<close>

definition boolPart :: "env \<Rightarrow> jv \<Rightarrow> string \<Rightarrow> string \<Rightarrow> jv outcome" where
  "boolPart E b attribute operand =
     (if truthy (getProp b attribute)
      then standardize E (JObj [(operand, getProp b attribute)])
      else Resolved JNull)"

definition notNode :: "jv \<Rightarrow> jv" where
  "notNode f = JObj [(''not'', f)]"

lemma boolAppend_boolNode:
  "\<not> isArray x \<Longrightarrow> boolAppend (boolNode items) x = Resolved (boolNode (items @ [x]))"
  by (cases x) (simp_all add: boolAppend_def boolNode_def)

lemma boolFinish_boolNode:
  "boolFinish (boolNode items)
     = Resolved (if length items = 1 then items ! 0 else boolNode items)"
  by (simp add: boolFinish_def boolNode_def)

lemma andThen_ResolvedI:
  "p = Resolved v \<Longrightarrow> f v = Resolved r \<Longrightarrow> andThen p f = Resolved r"
  by simp

lemma boolPart_and: "boolPart E b a ''and''
   = (if truthy (getProp b a) then and_kw (standardize E) (JObj [(''and'', getProp b a)]) ''and''
      else Resolved JNull)"
  by (simp add: boolPart_def standardize_single dispatch_def)

lemma boolPart_or: "boolPart E b a ''or''
   = (if truthy (getProp b a) then or_kw (standardize E) (JObj [(''or'', getProp b a)]) ''or''
      else Resolved JNull)"
  by (simp add: boolPart_def standardize_single dispatch_def)

lemma boolPart_wf: "boolPart E b a op = Resolved f \<Longrightarrow> wfNode f"
  by (auto simp: boolPart_def split: if_splits dest: standardize_wf)

lemma bool_without_must:
  assumes kvs: "kvs \<noteq> []" "set (map fst kvs) \<subseteq> {''must_not'', ''should'', ''should_not''}"
    and p2: "boolPart E (JObj kvs) ''must_not'' ''or'' = Resolved f2"
    and p3: "boolPart E (JObj kvs) ''should'' ''or'' = Resolved f3"
    and p4: "boolPart E (JObj kvs) ''should_not'' ''and'' = Resolved f4"
  shows "standardize E (JObj [(''bool'', JObj kvs)]) =
     Resolved (let items = (if truthy f2 then [notNode f2] else [])
                         @ (if truthy f3 then [f3] else [])
                         @ (if truthy f4 then [notNode f4] else [])
               in if length items = 1 then items ! 0 else boolNode items)"
proof -
  let ?b = "JObj kvs"
  let ?i2 = "if truthy f2 then [notNode f2] else []"
  let ?i3 = "?i2 @ (if truthy f3 then [f3] else [])"
  let ?i4 = "?i3 @ (if truthy f4 then [notNode f4] else [])"
  let ?r = "if length ?i4 = 1 then ?i4 ! 0 else boolNode ?i4"
  have na3: "\<not> isArray f3" using boolPart_wf [OF p3] by (cases f3) auto
  have s4: "boolShouldNot (boolNode ?i3) f4 = Resolved ?r"
    unfolding boolShouldNot_def
    by (rule andThen_ResolvedI [where v = "boolNode ?i4"])
       (simp_all add: boolAppend_boolNode boolFinish_boolNode notNode_def)
  have s3: "boolShould (standardize E) ?b (boolNode ?i2) f3 = Resolved ?r"
    unfolding boolShould_def
  proof (rule andThen_ResolvedI [where v = "boolNode ?i3"])
    show "(if truthy f3 then boolAppend (boolNode ?i2) f3 else Resolved (boolNode ?i2))
            = Resolved (boolNode ?i3)"
      using na3 by (simp add: boolAppend_boolNode)
    show "andThen (if truthy (getProp ?b ''should_not'')
                   then and_kw (standardize E) (JObj [(''and'', getProp ?b ''should_not'')]) ''and''
                   else Resolved JNull) (boolShouldNot (boolNode ?i3)) = Resolved ?r"
      using p4 s4 unfolding boolPart_and by (rule andThen_ResolvedI)
  qed
  have s2: "boolMustNot (standardize E) ?b (boolNode []) f2 = Resolved ?r"
    unfolding boolMustNot_def
  proof (rule andThen_ResolvedI [where v = "boolNode ?i2"])
    show "(if truthy f2 then boolAppend (boolNode []) (JObj [(''not'', f2)])
           else Resolved (boolNode [])) = Resolved (boolNode ?i2)"
      by (simp add: boolAppend_boolNode notNode_def)
    show "andThen (if truthy (getProp ?b ''should'')
                   then or_kw (standardize E) (JObj [(''or'', getProp ?b ''should'')]) ''or''
                   else Resolved JNull) (boolShould (standardize E) ?b (boolNode ?i2))
            = Resolved ?r"
      using p3 s3 unfolding boolPart_or by (rule andThen_ResolvedI)
  qed
  have seed: "(if truthy JNull then JNull
               else JObj [(''and'', JArr []), (''_isLeaf'', JBool True)]) = boolNode []"
    by (simp add: boolNode_def)
  have s1: "boolMust (standardize E) ?b JNull = Resolved ?r"
    unfolding boolMust_def seed
    using p2 s2 unfolding boolPart_or by (rule andThen_ResolvedI)
  have nm: "map_of kvs ''must'' = None"
    using kvs(2) by (auto simp: map_of_eq_None_iff)
  have ok: "\<not> list_ex (\<lambda>f. f \<notin> set [''must'', ''must_not'', ''should'', ''should_not''])
              (map fst kvs)"
    using kvs(2) by (auto simp: list_ex_iff)
  have "bool_kw (standardize E) (JObj [(''bool'', ?b)]) = Resolved ?r"
    unfolding bool_kw_staged using kvs(1) nm ok s1
    by (simp add: mustBeNonEmptyObject_def)
  then show ?thesis
    by (simp add: standardize_single dispatch_def Let_def)
qed


definition boolItems :: "jv \<Rightarrow> jv \<Rightarrow> jv \<Rightarrow> jv list" where
  "boolItems f2 f3 f4 = (if truthy f2 then [notNode f2] else [])
                      @ (if truthy f3 then [f3] else [])
                      @ (if truthy f4 then [notNode f4] else [])"

text \<open>
  Claim C7, amended. When the flattened list of an \<^verbatim>\<open>and\<close> or \<^verbatim>\<open>or\<close> combinator has
  exactly one item, that item is the result, without the combinator around it; so it is for
  a \<^verbatim>\<open>bool\<close> combinator without \<^verbatim>\<open>must\<close> attribute, whose items are the negated
  \<^verbatim>\<open>must_not\<close> disjunction, the \<^verbatim>\<open>should\<close> disjunction and the negated \<^verbatim>\<open>should_not\<close>
  conjunction, as far as present.
\<close>

theorem single_item_unwrapped:
  "((op = ''and'' \<or> op = ''or'') \<and> cs \<noteq> [] \<and> list_all nonEmptyObject cs
      \<and> map (standardize E) cs = map Resolved rs \<and> list_all (\<lambda>r. \<not> nullish r) rs
      \<and> fst (flatten op rs ([], True)) = [x]
     \<longrightarrow> standardize E (JObj [(op, JArr cs)]) = Resolved x)
   \<and> (kvs \<noteq> [] \<and> set (map fst kvs) \<subseteq> {''must_not'', ''should'', ''should_not''}
      \<and> boolPart E (JObj kvs) ''must_not'' ''or'' = Resolved f2
      \<and> boolPart E (JObj kvs) ''should'' ''or'' = Resolved f3
      \<and> boolPart E (JObj kvs) ''should_not'' ''and'' = Resolved f4
      \<and> boolItems f2 f3 f4 = [y]
     \<longrightarrow> standardize E (JObj [(''bool'', JObj kvs)]) = Resolved y)"
proof (intro conjI impI)
  assume a: "(op = ''and'' \<or> op = ''or'') \<and> cs \<noteq> [] \<and> list_all nonEmptyObject cs
      \<and> map (standardize E) cs = map Resolved rs \<and> list_all (\<lambda>r. \<not> nullish r) rs
      \<and> fst (flatten op rs ([], True)) = [x]"
  then have "\<exists>fl. truthy fl = snd (flatten op rs ([], True)) \<and>
      standardize E (JObj [(op, JArr cs)]) =
        Resolved (let acc = fst (flatten op rs ([], True)) in
                  if length acc = 1 then acc ! 0
                  else JObj [(op, JArr acc), (''_isLeaf'', fl)])"
    by (intro standardize_flatten) simp_all
  with a show "standardize E (JObj [(op, JArr cs)]) = Resolved x" by auto
next
  assume b: "kvs \<noteq> [] \<and> set (map fst kvs) \<subseteq> {''must_not'', ''should'', ''should_not''}
      \<and> boolPart E (JObj kvs) ''must_not'' ''or'' = Resolved f2
      \<and> boolPart E (JObj kvs) ''should'' ''or'' = Resolved f3
      \<and> boolPart E (JObj kvs) ''should_not'' ''and'' = Resolved f4
      \<and> boolItems f2 f3 f4 = [y]"
  then have "standardize E (JObj [(''bool'', JObj kvs)]) =
     Resolved (let items = (if truthy f2 then [notNode f2] else [])
                         @ (if truthy f3 then [f3] else [])
                         @ (if truthy f4 then [notNode f4] else [])
               in if length items = 1 then items ! 0 else boolNode items)"
    by (intro bool_without_must) simp_all
  with b show "standardize E (JObj [(''bool'', JObj kvs)]) = Resolved y"
    by (simp add: boolItems_def)
qed

definition orNode :: "jv list \<Rightarrow> jv" where
  "orNode items = JObj [(''or'', JArr items), (''_isLeaf'', JBool True)]"

text \<open>
  The instance of the specification, \<^verbatim>\<open>{and: [{exists: {field: "a"}}]}\<close>, and the filter
  \<^verbatim>\<open>{bool: {should: [{exists: {field: "b"}}, {exists: {field: "c"}}]}}\<close>, which gives the
  \<^verbatim>\<open>or\<close> node alone.
\<close>

theorem single_item_unwrapped_witness:
  "list_all nonEmptyObject [existsFilter ''a'']
   \<and> map (standardize sampleEnv) [existsFilter ''a''] = map Resolved [existsFilter ''a'']
   \<and> fst (flatten ''and'' [existsFilter ''a''] ([], True)) = [existsFilter ''a'']
   \<and> standardize sampleEnv (JObj [(''and'', JArr [existsFilter ''a''])])
       = Resolved (existsFilter ''a'')
   \<and> boolPart sampleEnv (JObj [(''should'', JArr [existsFilter ''b'', existsFilter ''c''])])
        ''should'' ''or'' = Resolved (orNode [existsFilter ''b'', existsFilter ''c''])
   \<and> boolItems JNull (orNode [existsFilter ''b'', existsFilter ''c'']) JNull
       = [orNode [existsFilter ''b'', existsFilter ''c'']]
   \<and> standardize sampleEnv (JObj [(''bool'',
         JObj [(''should'', JArr [existsFilter ''b'', existsFilter ''c''])])])
       = Resolved (orNode [existsFilter ''b'', existsFilter ''c''])"
proof -
  let ?kvs = "[(''should'', JArr [existsFilter ''b'', existsFilter ''c''])]"
  have h1: "list_all nonEmptyObject [existsFilter ''a'']"
    by (simp add: nonEmptyObject_def existsFilter_def)
  have h2: "map (standardize sampleEnv) [existsFilter ''a''] = map Resolved [existsFilter ''a'']"
    by code_simp
  have h3: "fst (flatten ''and'' [existsFilter ''a''] ([], True)) = [existsFilter ''a'']"
    by (simp add: existsFilter_def)
  have h4: "list_all (\<lambda>r. \<not> nullish r) [existsFilter ''a'']"
    by (simp add: existsFilter_def)
  have b2: "boolPart sampleEnv (JObj ?kvs) ''must_not'' ''or'' = Resolved JNull"
    by (simp add: boolPart_def)
  have b3: "boolPart sampleEnv (JObj ?kvs) ''should'' ''or''
              = Resolved (orNode [existsFilter ''b'', existsFilter ''c''])"
    by code_simp
  have b4: "boolPart sampleEnv (JObj ?kvs) ''should_not'' ''and'' = Resolved JNull"
    by (simp add: boolPart_def)
  have b5: "boolItems JNull (orNode [existsFilter ''b'', existsFilter ''c'']) JNull
       = [orNode [existsFilter ''b'', existsFilter ''c'']]"
    by (simp add: boolItems_def orNode_def)
  note t = single_item_unwrapped [of "''and''" "[existsFilter ''a'']" sampleEnv
      "[existsFilter ''a'']" "existsFilter ''a''" ?kvs JNull
      "orNode [existsFilter ''b'', existsFilter ''c'']" JNull
      "orNode [existsFilter ''b'', existsFilter ''c'']"]
  from t h1 h2 h3 h4 have 1: "standardize sampleEnv (JObj [(''and'', JArr [existsFilter ''a''])])
       = Resolved (existsFilter ''a'')" by simp
  from t b2 b3 b4 b5 have 2: "standardize sampleEnv (JObj [(''bool'', JObj ?kvs)])
       = Resolved (orNode [existsFilter ''b'', existsFilter ''c''])" by simp
  from h1 h2 h3 1 b3 b5 2 show ?thesis by blast
qed

text \<open>
  Claim C7 as stated says that no singleton \<^verbatim>\<open>and\<close>/\<^verbatim>\<open>or\<close> is ever emitted. The \<^verbatim>\<open>or\<close>
  node that \<^verbatim>\<open>ids\<close> builds does not go through the unwrapping: one value gives an \<^verbatim>\<open>or\<close>
  with one child.
\<close>

theorem ids_single_value_singleton_or:
  "standardize sampleEnv (JObj [(''ids'', JObj [(''values'', JArr [JStr ''a''])])])
     = Resolved (JObj [(''or'', JArr [JObj [(''equals'', JObj [(''_id'', JStr ''a'')])]]),
                       (''_isLeaf'', JBool True)])"
  by code_simp

subsection \<open>Propagation of errors\<close>

lemma reducer_Resolved: "\<not> nullish sub \<Longrightarrow> \<exists>st'. reducer op st sub = Resolved st'"
  by (cases st) (simp add: reducer_def)

lemma reduce_first_rejected:
  "list_all (\<lambda>r. \<not> nullish r) rs \<Longrightarrow>
   reduce op (map Resolved rs @ Rejected e # rest) st = Rejected e"
proof (induction rs arbitrary: st)
  case Nil
  then show ?case by simp
next
  case (Cons r rs)
  then obtain st' where "reducer op st r = Resolved st'"
    using reducer_Resolved [of r op st] by auto
  with Cons show ?case by simp
qed

lemma firstThrown_append:
  "firstThrown (map Resolved rs @ Rejected e # rest) = firstThrown rest"
  by (induction rs) auto

lemma and_or_first_rejected:
  assumes op: "op = ''and'' \<or> op = ''or''"
    and ok: "list_all nonEmptyObject (pre @ c # post)"
    and pre: "map (standardize E) pre = map Resolved rs" "list_all (\<lambda>r. \<not> nullish r) rs"
    and c: "standardize E c = Rejected e"
    and post: "firstThrown (map (standardize E) post) = None"
  shows "standardize E (JObj [(op, JArr (pre @ c # post))]) = Rejected e"
proof -
  let ?flt = "JObj [(op, JArr (pre @ c # post))]"
  have subs: "map (standardize E) (pre @ c # post)
                = map Resolved rs @ Rejected e # map (standardize E) post"
    using pre(1) c by simp
  have "standardizeFilterArray (standardize E) ?flt op = Rejected e"
    using badItem_ok [OF ok] post reduce_first_rejected [OF pre(2)]
    by (simp add: standardizeFilterArray_def subs firstThrown_append del: map_append)
  note r = this
  from op show ?thesis
  proof
    assume "op = ''and''"
    with r show ?thesis
      by (simp add: standardize_single dispatch_def and_kw_def mustBeNonEmptyArray_def)
  next
    assume "op = ''or''"
    with r show ?thesis
      by (simp add: standardize_single dispatch_def or_kw_def mustBeNonEmptyArray_def)
  qed
qed


lemma firstThrown_append_Thrown:
  "firstThrown (map Resolved rs @ Thrown e # rest) = Some e"
  by (induction rs) auto

lemma and_or_first_thrown:
  assumes op: "op = ''and'' \<or> op = ''or''"
    and ok: "list_all nonEmptyObject (pre @ c # post)"
    and pre: "map (standardize E) pre = map Resolved rs"
    and c: "standardize E c = Thrown e"
  shows "standardize E (JObj [(op, JArr (pre @ c # post))]) = Rejected e"
proof -
  let ?flt = "JObj [(op, JArr (pre @ c # post))]"
  have subs: "map (standardize E) (pre @ c # post)
                = map Resolved rs @ Thrown e # map (standardize E) post"
    using pre c by simp
  have r: "standardizeFilterArray (standardize E) ?flt op = Thrown e"
    using badItem_ok [OF ok]
    by (simp add: standardizeFilterArray_def subs firstThrown_append_Thrown del: map_append)
  from op show ?thesis
  proof
    assume "op = ''and''"
    with r show ?thesis
      by (simp add: standardize_single dispatch_def and_kw_def mustBeNonEmptyArray_def)
  next
    assume "op = ''or''"
    with r show ?thesis
      by (simp add: standardize_single dispatch_def or_kw_def mustBeNonEmptyArray_def)
  qed
qed

text \<open>The test \<^verbatim>\<open>not\<close> makes on the value under the nested keyword before it descends.\<close>

definition notCheck :: "string \<Rightarrow> jv \<Rightarrow> bool" where
  "notCheck k v = (if k = ''and'' \<or> k = ''or'' then isArray v \<and> elems v \<noteq> []
                   else nonEmptyObject v)"

fun failsWith :: "'a outcome \<Rightarrow> error \<Rightarrow> bool" where
  "failsWith (Rejected e') e = (e' = e)"
| "failsWith (Thrown e') e = (e' = e)"
| "failsWith (Resolved v) e = False"

lemma nonEmptyObject_passes:
  "nonEmptyObject v \<Longrightarrow> mustBeNonEmptyObject v label = Resolved (keys v)"
  by (cases v) (auto simp: nonEmptyObject_def mustBeNonEmptyObject_def)

lemma not_propagates:
  assumes "notCheck k v" and "failsWith (standardize E (JObj [(k, v)])) e"
  shows "standardize E (JObj [(''not'', JObj [(k, v)])]) = Rejected e"
proof -
  have 1: "mustBeNonEmptyObject (JObj [(k, v)]) ''not'' = Resolved [k]"
    by (simp add: mustBeNonEmptyObject_def)
  have 2: "onlyOneFieldAttribute [k] ''not'' = Resolved [k]"
    by (simp add: onlyOneFieldAttribute_def)
  from assms(2) consider "standardize E (JObj [(k, v)]) = Rejected e"
    | "standardize E (JObj [(k, v)]) = Thrown e"
    by (cases "standardize E (JObj [(k, v)])") auto
  then have "not_kw (standardize E) (JObj [(''not'', JObj [(k, v)])]) = Rejected e"
  proof cases
    case r: 1
    show ?thesis
    proof (cases "k = ''and'' \<or> k = ''or''")
      case True
      with assms(1) have "isArray v" "elems v \<noteq> []" by (simp_all add: notCheck_def)
      with True r show ?thesis
        by (auto simp: not_kw_def 1 2 Let_def mustBeNonEmptyArray_def)
    next
      case False
      with assms(1) have "mustBeNonEmptyObject v l = Resolved (keys v)" for l
        by (simp add: notCheck_def nonEmptyObject_passes)
      with False r show ?thesis
        by (simp add: not_kw_def 1 2 Let_def)
    qed
  next
    case r: 2
    show ?thesis
    proof (cases "k = ''and'' \<or> k = ''or''")
      case True
      with assms(1) have "isArray v" "elems v \<noteq> []" by (simp_all add: notCheck_def)
      with True r show ?thesis
        by (auto simp: not_kw_def 1 2 Let_def mustBeNonEmptyArray_def)
    next
      case False
      with assms(1) have "mustBeNonEmptyObject v l = Resolved (keys v)" for l
        by (simp add: notCheck_def nonEmptyObject_passes)
      with False r show ?thesis
        by (simp add: not_kw_def 1 2 Let_def)
    qed
  qed
  then show ?thesis by (simp add: standardize_single dispatch_def)
qed

definition isAndNode :: "jv \<Rightarrow> bool" where
  "isAndNode v = isArray (getProp v ''and'')"

definition boolSeed :: "jv \<Rightarrow> jv" where
  "boolSeed f = (if truthy f then f else JObj [(''and'', JArr []), (''_isLeaf'', JBool True)])"

lemma boolAppend_andNode:
  assumes "isAndNode st"
  shows "\<exists>st'. boolAppend st x = Resolved st' \<and> isAndNode st'"
proof -
  from assms obtain xs where xs: "getProp st ''and'' = JArr xs"
    by (cases "getProp st ''and''") (auto simp: isAndNode_def)
  then obtain kvs where "st = JObj kvs" by (cases st) auto
  with xs show ?thesis by (simp add: boolAppend_def isAndNode_def)
qed

lemma boolAppend_if_andNode:
  assumes "isAndNode st"
  shows "\<exists>st'. (if c then boolAppend st x else Resolved st) = Resolved st' \<and> isAndNode st'"
  using boolAppend_andNode [OF assms, of x] assms by auto

lemma andThen_not_Thrown: "(\<And>e. p \<noteq> Thrown e) \<Longrightarrow> andThen p f \<noteq> Thrown e'"
  by (cases p) (auto split: outcome.splits)

lemma and_kw_not_Thrown: "and_kw std (JObj kvs) kw \<noteq> Thrown e"
  unfolding and_kw_def by (rule andThen_not_Thrown) (simp add: mustBeNonEmptyArray_def)

lemma or_kw_not_Thrown: "or_kw std (JObj kvs) kw \<noteq> Thrown e"
  unfolding or_kw_def by (rule andThen_not_Thrown) (simp add: mustBeNonEmptyArray_def)

lemma boolPart_not_Thrown:
  "boolPart E b a ''and'' \<noteq> Thrown e" "boolPart E b a ''or'' \<noteq> Thrown e"
  by (simp_all add: boolPart_and boolPart_or and_kw_not_Thrown or_kw_not_Thrown)

lemma bool_propagates:
  assumes kvs: "kvs \<noteq> []" "set (map fst kvs) \<subseteq> {''must'', ''must_not'', ''should'', ''should_not''}"
  shows "(boolPart E (JObj kvs) ''must'' ''and'' = Rejected e
            \<longrightarrow> standardize E (JObj [(''bool'', JObj kvs)]) = Rejected e)
       \<and> (boolPart E (JObj kvs) ''must'' ''and'' = Resolved f1
          \<and> boolPart E (JObj kvs) ''must_not'' ''or'' = Rejected e
            \<longrightarrow> standardize E (JObj [(''bool'', JObj kvs)]) = Rejected e)
       \<and> (boolPart E (JObj kvs) ''must'' ''and'' = Resolved f1 \<and> isAndNode (boolSeed f1)
          \<and> boolPart E (JObj kvs) ''must_not'' ''or'' = Resolved f2
          \<and> boolPart E (JObj kvs) ''should'' ''or'' = Rejected e
            \<longrightarrow> standardize E (JObj [(''bool'', JObj kvs)]) = Rejected e)
       \<and> (boolPart E (JObj kvs) ''must'' ''and'' = Resolved f1 \<and> isAndNode (boolSeed f1)
          \<and> boolPart E (JObj kvs) ''must_not'' ''or'' = Resolved f2
          \<and> boolPart E (JObj kvs) ''should'' ''or'' = Resolved f3
          \<and> boolPart E (JObj kvs) ''should_not'' ''and'' = Rejected e
            \<longrightarrow> standardize E (JObj [(''bool'', JObj kvs)]) = Rejected e)"
proof -
  let ?b = "JObj kvs"
  let ?std = "standardize E"
  have ok: "\<not> list_ex (\<lambda>f. f \<notin> set [''must'', ''must_not'', ''should'', ''should_not''])
              (map fst kvs)"
    using kvs(2) by (auto simp: list_ex_iff)
  have top: "standardize E (JObj [(''bool'', ?b)])
               = andThen (boolPart E ?b ''must'' ''and'') (boolMust ?std ?b)"
  proof -
    have "mustBeNonEmptyObject ?b ''bool'' = Resolved (map fst kvs)"
      using kvs(1) by (simp add: mustBeNonEmptyObject_def)
    then have "bool_kw ?std (JObj [(''bool'', ?b)])
        = andThen (Resolved (map fst kvs))
            (\<lambda>flds. andThen (boolPart E ?b ''must'' ''and'') (boolMust ?std ?b))"
      unfolding bool_kw_staged boolPart_and using ok by simp
    also have "\<dots> = andThen (boolPart E ?b ''must'' ''and'') (boolMust ?std ?b)"
      using boolPart_not_Thrown(1) [of E ?b "''must''"]
      by (cases "boolPart E ?b ''must'' ''and''") (auto split: outcome.splits)
    finally show ?thesis by (simp add: standardize_single dispatch_def)
  qed
  have nt: "boolMust ?std ?b f \<noteq> Thrown x" for f x
    unfolding boolMust_def
    by (rule andThen_not_Thrown) (simp add: or_kw_not_Thrown)
  have top': "standardize E (JObj [(''bool'', ?b)]) = boolMust ?std ?b f1"
    if "boolPart E ?b ''must'' ''and'' = Resolved f1"
    using that nt [of f1] unfolding top by (cases "boolMust ?std ?b f1") auto
  have m: "boolMust ?std ?b f1
             = andThen (boolPart E ?b ''must_not'' ''or'') (boolMustNot ?std ?b (boolSeed f1))"
    by (simp add: boolMust_def boolPart_or boolSeed_def)
  have s3: "boolShould ?std ?b st f3 = Rejected e"
    if "isAndNode st" "boolPart E ?b ''should_not'' ''and'' = Rejected e" for st f3
  proof -
    from boolAppend_if_andNode [OF that(1)] obtain st' where
      "(if truthy f3 then boolAppend st f3 else Resolved st) = Resolved st'" by blast
    with that(2) show ?thesis by (simp add: boolShould_def boolPart_and)
  qed
  have s2: "boolMustNot ?std ?b st f2 = Rejected e"
    if "isAndNode st"
      "boolPart E ?b ''should'' ''or'' = Rejected e
       \<or> (boolPart E ?b ''should'' ''or'' = Resolved f3
          \<and> boolPart E ?b ''should_not'' ''and'' = Rejected e)" for st f2
  proof -
    from boolAppend_if_andNode [OF that(1)] obtain st' where
      st': "(if truthy f2 then boolAppend st (JObj [(''not'', f2)]) else Resolved st)
              = Resolved st'" "isAndNode st'" by blast
    from that(2) show ?thesis
    proof
      assume "boolPart E ?b ''should'' ''or'' = Rejected e"
      with st'(1) show ?thesis by (simp add: boolMustNot_def boolPart_or)
    next
      assume a: "boolPart E ?b ''should'' ''or'' = Resolved f3
          \<and> boolPart E ?b ''should_not'' ''and'' = Rejected e"
      with s3 [OF st'(2), of f3] st'(1) show ?thesis
        by (simp add: boolMustNot_def boolPart_or)
    qed
  qed
  show ?thesis
  proof (intro conjI impI)
    assume "boolPart E ?b ''must'' ''and'' = Rejected e"
    then show "standardize E (JObj [(''bool'', ?b)]) = Rejected e" by (simp add: top)
  next
    assume "boolPart E ?b ''must'' ''and'' = Resolved f1
          \<and> boolPart E ?b ''must_not'' ''or'' = Rejected e"
    then show "standardize E (JObj [(''bool'', ?b)]) = Rejected e"
      using top' m by simp
  next
    assume a: "boolPart E ?b ''must'' ''and'' = Resolved f1 \<and> isAndNode (boolSeed f1)
          \<and> boolPart E ?b ''must_not'' ''or'' = Resolved f2
          \<and> boolPart E ?b ''should'' ''or'' = Rejected e"
    then have "boolMustNot ?std ?b (boolSeed f1) f2 = Rejected e" using s2 by blast
    with a show "standardize E (JObj [(''bool'', ?b)]) = Rejected e"
      using top' m by simp
  next
    assume a: "boolPart E ?b ''must'' ''and'' = Resolved f1 \<and> isAndNode (boolSeed f1)
          \<and> boolPart E ?b ''must_not'' ''or'' = Resolved f2
          \<and> boolPart E ?b ''should'' ''or'' = Resolved f3
          \<and> boolPart E ?b ''should_not'' ''and'' = Rejected e"
    then have "boolMustNot ?std ?b (boolSeed f1) f2 = Rejected e" using s2 by blast
    with a show "standardize E (JObj [(''bool'', ?b)]) = Rejected e"
      using top' m by simp
  qed
qed

subsubsection \<open>The order of the checks of a validator\<close>

text \<open>
  A validator makes its checks one after the other. A check is written here as the error
  it gives, \<open>None\<close> when it passes; the error of a list of checks is that of the first
  one that is violated.
\<close>

definition violated :: "bool \<Rightarrow> error \<Rightarrow> error option" where
  "violated c e = (if c then Some e else None)"

fun firstViolated :: "error option list \<Rightarrow> error option" where
  "firstViolated [] = None"
| "firstViolated (Some e # checks) = Some e"
| "firstViolated (None # checks) = firstViolated checks"

text \<open>The test of \<^verbatim>\<open>mustBeNonEmptyObject\<close> and the messages of the five primitives.\<close>

definition notObject :: "jv \<Rightarrow> bool" where
  "notObject x = (\<not> truthy x \<or> typeof x \<noteq> ''object'' \<or> isArray x \<or> length (keys x) = 0)"

definition errNonEmptyObject :: "string \<Rightarrow> error" where
  "errNonEmptyObject keyword = BadRequestError (''\"'' @ keyword @ ''\" must be a non-empty object'')"

definition errOneAttribute :: "string \<Rightarrow> error" where
  "errOneAttribute keyword = BadRequestError (''\"'' @ keyword @ ''\" can contain only one attribute'')"

definition errRequires :: "string \<Rightarrow> string \<Rightarrow> error" where
  "errRequires keyword attribute = BadRequestError
     (''\"'' @ keyword @ ''\" requires the following attribute: '' @ attribute)"

definition errString :: "string \<Rightarrow> string \<Rightarrow> error" where
  "errString keyword field = BadRequestError
     (''Attribute \"'' @ field @ ''\" in \"'' @ keyword @ ''\" must be a string'')"

definition errArray :: "string \<Rightarrow> string \<Rightarrow> error" where
  "errArray keyword field = BadRequestError
     (''Attribute \"'' @ field @ ''\" in \"'' @ keyword @ ''\" must be an array'')"

definition errEmpty :: "string \<Rightarrow> string \<Rightarrow> error" where
  "errEmpty keyword field = BadRequestError
     (''Attribute \"'' @ field @ ''\" in  \"'' @ keyword @ ''\" cannot be empty'')"

text \<open>The checks of each validator, in the order of the source.\<close>

definition existsChecks :: "jv \<Rightarrow> string \<Rightarrow> error option list" where
  "existsChecks flt name = (let x = getProp flt name in
     [violated (notObject x) (errNonEmptyObject name),
      violated (length (keys x) > 1) (errOneAttribute name),
      violated (typeof (getProp x ''field'') \<noteq> ''string'') (errString name ''field''),
      violated (getProp x ''field'' = JStr [])
        (BadRequestError ''exists: cannot test empty field name'')])"

definition idsChecks :: "jv \<Rightarrow> error option list" where
  "idsChecks flt = (let x = getProp flt ''ids''; vs = getProp x ''values'' in
     [violated (notObject x) (errNonEmptyObject ''ids''),
      violated (length (keys x) > 1) (errOneAttribute ''ids''),
      violated (\<not> truthy vs) (errRequires ''ids'' ''values''),
      violated (\<not> isArray vs) (errArray ''ids'' ''values''),
      violated (elems vs = []) (errEmpty ''ids'' ''values''),
      violated (list_ex (\<lambda>v. typeof v \<noteq> ''string'') (elems vs))
        (BadRequestError ''Array \"values\" in keyword \"ids\" can only contain strings'')])"

definition equalsChecks :: "jv \<Rightarrow> error option list" where
  "equalsChecks flt = (let x = getProp flt ''equals''; f = first_key (keys x) in
     [violated (notObject x) (errNonEmptyObject ''equals''),
      violated (length (keys x) > 1) (errOneAttribute ''equals''),
      violated (typeof (getProp x f) \<noteq> ''string'') (errString ''equals'' f)])"

definition inChecks :: "jv \<Rightarrow> error option list" where
  "inChecks flt = (let x = getProp flt ''in''; f = first_key (keys x); vs = getProp x f in
     [violated (notObject x) (errNonEmptyObject ''in''),
      violated (length (keys x) > 1) (errOneAttribute ''in''),
      violated (\<not> isArray vs) (errArray ''in'' f),
      violated (elems vs = []) (errEmpty ''in'' f),
      violated (list_ex (\<lambda>v. typeof v \<noteq> ''string'') (elems vs))
        (BadRequestError (''Array \"'' @ f @ ''\" in keyword \"in\" can only contain strings''))])"

text \<open>The checks of \<^verbatim>\<open>range\<close> that come before the loop over the bounds.\<close>

definition rangeChecks :: "jv \<Rightarrow> error option list" where
  "rangeChecks flt = (let x = getProp flt ''range''; f = first_key (keys x); v = getProp x f in
     [violated (notObject x) (errNonEmptyObject ''range''),
      violated (length (keys x) > 1) (errOneAttribute ''range''),
      violated (notObject v) (errNonEmptyObject (''range.'' @ f)),
      violated (list_ex (\<lambda>a. a \<notin> set [''gt'', ''lt'', ''gte'', ''lte'']) (keys v))
        (BadRequestError (''\"range.'' @ f
           @ ''\" accepts only the following attributes : gt, gte, lt, lte''))]
     @ map (\<lambda>a. violated (typeof (getProp v a) \<noteq> ''number'')
                  (BadRequestError (''\"range.'' @ f @ ''.'' @ a @ ''\" must be a number'')))
         (keys v))"

definition regexpChecks :: "env \<Rightarrow> jv \<Rightarrow> error option list" where
  "regexpChecks E flt =
     (let x = getProp flt ''regexp''; f = first_key (keys x); v = getProp x f in
      [violated (notObject x) (errNonEmptyObject ''regexp''),
       violated (length (keys x) > 1) (errOneAttribute ''regexp''),
       violated (notObject v) (errNonEmptyObject (''regexp.'' @ f)),
       violated (list_ex (\<lambda>a. a \<notin> set [''flags'', ''value'']) (keys v))
         (BadRequestError
            ''Keyword \"regexp\" can only contain the following attributes: flags, value''),
       violated (\<not> truthy (getProp v ''value'')) (errRequires ''regexp'' ''value''),
       violated (truthy (getProp v ''flags'') \<and> typeof (getProp v ''flags'') \<noteq> ''string'')
         (errString ''regexp'' ''flags''),
       map_option (\<lambda>msg. BadRequestError (''Invalid regular expression \"''
              @ templateString E (getProp v ''value'') @ ''\": '' @ msg))
         (regExpError E (getProp v ''value'') (getProp v ''flags''))])"

definition geoBoundingBoxChecks :: "env \<Rightarrow> jv \<Rightarrow> error option list" where
  "geoBoundingBoxChecks E flt =
     (let x = getProp flt ''geoBoundingBox''; f = first_key (keys x) in
      [violated (notObject x) (errNonEmptyObject ''geoBoundingBox''),
       violated (length (keys x) > 1) (errOneAttribute ''geoBoundingBox''),
       violated (\<not> truthy (getProp
            (bBoxStandardized E (geoLocationToCamelCase E (getProp x f))) ''top''))
         (BadRequestError (''Unrecognized geo-point format in \"geoBoundingBox.'' @ f))])"

text \<open>Reading \<^verbatim>\<open>point.lat\<close> of an \<^verbatim>\<open>undefined\<close> point throws a \<^verbatim>\<open>TypeError\<close>.\<close>

definition distanceError :: "env \<Rightarrow> jv \<Rightarrow> error option" where
  "distanceError E d = (case convertDistance E d of Inl e \<Rightarrow> Some e | Inr x \<Rightarrow> None)"

definition geoDistanceChecks :: "env \<Rightarrow> jv \<Rightarrow> error option list" where
  "geoDistanceChecks E flt =
     (let g = getProp flt ''geoDistance'';
          docField = findKey (\<lambda>f. f \<noteq> ''distance'') (keys g);
          point = convertGeopoint E (getProp g docField) in
      [violated (notObject g) (errNonEmptyObject ''geoDistance''),
       violated (length (keys g) \<noteq> 2 \<or> ''distance'' \<notin> set (keys g)) (BadRequestError
         ''\"geoDistance\" keyword requires a document field and a \"distance\" attribute''),
       violated (typeof (getProp g ''distance'') \<noteq> ''string'')
         (errString ''geoDistance'' ''distance''),
       violated (point = JNull)
         (BadRequestError (''geoDistance.'' @ docField @ '': unrecognized point format'')),
       violated (point = JUndefined) TypeError,
       distanceError E (getProp g ''distance'')])"

definition geoDistanceRangeChecks :: "env \<Rightarrow> jv \<Rightarrow> error option list" where
  "geoDistanceRangeChecks E flt =
     (let g = getProp flt ''geoDistanceRange'';
          docField = findKey (\<lambda>f. f \<noteq> ''from'' \<and> f \<noteq> ''to'') (keys g);
          point = convertGeopoint E (getProp g docField) in
      [violated (notObject g) (errNonEmptyObject ''geoDistanceRange''),
       violated (length (keys g) \<noteq> 3 \<or> ''from'' \<notin> set (keys g) \<or> ''to'' \<notin> set (keys g))
         (BadRequestError
           ''\"geoDistanceRange\" keyword requires a document field and the following attributes: \"from\", \"to\"''),
       violated (typeof (getProp g ''from'') \<noteq> ''string'')
         (errString ''geoDistanceRange'' ''from''),
       violated (typeof (getProp g ''to'') \<noteq> ''string'')
         (errString ''geoDistanceRange'' ''to''),
       violated (point = JNull)
         (BadRequestError (''geoDistanceRange.'' @ docField @ '': unrecognized point format'')),
       violated (point = JUndefined) TypeError,
       distanceError E (getProp g ''from''),
       distanceError E (getProp g ''to''),
       (case (convertDistance E (getProp g ''from''), convertDistance E (getProp g ''to'')) of
          (Inr from, Inr to) \<Rightarrow> violated (js_le to from)
             (BadRequestError (''geoDistanceRange.'' @ docField
                @ '': inner radius must be smaller than outer radius''))
        | _ \<Rightarrow> None)])"

text \<open>
  \<^verbatim>\<open>geoPolygon\<close> names \<^verbatim>\<open>geoBoundingBox\<close> in the message of its second check, and reads
  \<^verbatim>\<open>points\<close> from the value under the document field, which throws on \<^verbatim>\<open>null\<close>.
\<close>

definition pointChecks :: "env \<Rightarrow> string \<Rightarrow> jv \<Rightarrow> error option list" where
  "pointChecks E docField p =
     [violated (convertGeopoint E p = JNull) (BadRequestError (''geoPolygon.'' @ docField
        @ '': unrecognized point format ('' @ jsonStringify E p @ '')'')),
      violated (convertGeopoint E p = JUndefined) TypeError]"

definition geoPolygonChecks :: "env \<Rightarrow> jv \<Rightarrow> error option list" where
  "geoPolygonChecks E flt =
     (let x = getProp flt ''geoPolygon''; f = first_key (keys x); v = getProp x f;
          ps = getProp v ''points'' in
      [violated (notObject x) (errNonEmptyObject ''geoPolygon''),
       violated (length (keys x) > 1) (errOneAttribute ''geoBoundingBox''),
       violated (nullish v) TypeError,
       violated (\<not> truthy ps) (errRequires (''geoPolygon.'' @ f) ''points''),
       violated (\<not> isArray ps) (errArray (''geoPolygon.'' @ f) ''points''),
       violated (elems ps = []) (errEmpty (''geoPolygon.'' @ f) ''points''),
       violated (length (elems ps) < 3) (BadRequestError (''\"geoPolygon.'' @ f
              @ ''\": at least 3 points are required to build a polygon''))]
      @ concat (map (pointChecks E f) (elems ps)))"

text \<open>
  The checks \<^verbatim>\<open>and\<close> and \<^verbatim>\<open>or\<close> make on their argument before they descend; calling
  \<^verbatim>\<open>Object.keys\<close> on an item \<^verbatim>\<open>null\<close> throws a \<^verbatim>\<open>TypeError\<close>.
\<close>

definition itemChecks :: "string \<Rightarrow> jv \<Rightarrow> error option list" where
  "itemChecks operand x =
     [violated (typeof x \<noteq> ''object'' \<or> isArray x)
        (BadRequestError (''\"'' @ operand @ ''\" operand can only contain non-empty objects'')),
      violated (x = JNull) TypeError,
      violated (length (keys x) = 0)
        (BadRequestError (''\"'' @ operand @ ''\" operand can only contain non-empty objects''))]"

definition arrayChecks :: "jv \<Rightarrow> string \<Rightarrow> error option list" where
  "arrayChecks flt operand = (let a = getProp flt operand in
     [violated (\<not> isArray a) (errArray operand operand),
      violated (elems a = []) (errEmpty operand operand)]
     @ concat (map (itemChecks operand) (elems a)))"

text \<open>The checks of \<^verbatim>\<open>not\<close> and of \<^verbatim>\<open>bool\<close> on their argument.\<close>

definition notChecks :: "jv \<Rightarrow> error option list" where
  "notChecks flt = (let n = getProp flt ''not''; kwd = first_key (keys n); v = getProp n kwd in
     [violated (notObject n) (errNonEmptyObject ''not''),
      violated (length (keys n) > 1) (errOneAttribute ''not''),
      violated ((kwd = ''and'' \<or> kwd = ''or'') \<and> \<not> isArray v) (errArray ''not'' kwd),
      violated ((kwd = ''and'' \<or> kwd = ''or'') \<and> elems v = []) (errEmpty ''not'' kwd),
      violated (kwd \<noteq> ''and'' \<and> kwd \<noteq> ''or'' \<and> notObject v)
        (errNonEmptyObject (''not.'' @ kwd))])"

definition boolChecks :: "jv \<Rightarrow> error option list" where
  "boolChecks flt = (let b = getProp flt ''bool'' in
     [violated (notObject b) (errNonEmptyObject ''bool''),
      violated (list_ex (\<lambda>f. f \<notin> set [''must'', ''must_not'', ''should'', ''should_not''])
                 (keys b))
        (BadRequestError
           ''\"bool\" operand accepts only the following attributes: must, must_not, should, should_not'')])"

lemma firstViolated_violated [simp]:
  "firstViolated (violated c e # checks) = (if c then Some e else firstViolated checks)"
  by (simp add: violated_def)

lemma firstViolated_append:
  "firstViolated (xs @ ys)
     = (case firstViolated xs of Some e \<Rightarrow> Some e | None \<Rightarrow> firstViolated ys)"
  by (induction xs rule: firstViolated.induct) auto

lemma firstViolated_map_find:
  "firstViolated (map (\<lambda>a. violated (P a) (err a)) ks) = map_option err (find P ks)"
  by (induction ks) auto

lemma mustBeNonEmptyObject_if:
  "mustBeNonEmptyObject x keyword =
     (if notObject x then Rejected (errNonEmptyObject keyword) else Resolved (keys x))"
  by (simp add: mustBeNonEmptyObject_def notObject_def errNonEmptyObject_def)

lemma onlyOneFieldAttribute_if:
  "onlyOneFieldAttribute ks keyword =
     (if length ks > 1 then Rejected (errOneAttribute keyword) else Resolved ks)"
  by (simp add: onlyOneFieldAttribute_def errOneAttribute_def)

lemma notObject_nullish: "\<not> notObject x \<Longrightarrow> \<not> nullish x"
  by (cases x) (auto simp: notObject_def)

lemma requireAttribute_if:
  "\<not> nullish x \<Longrightarrow> requireAttribute x keyword attribute =
     (if \<not> truthy (getProp x attribute) then Rejected (errRequires keyword attribute)
      else Resolved ())"
  by (simp add: requireAttribute_def errRequires_def)

lemma mustBeString_if:
  "\<not> nullish x \<Longrightarrow> mustBeString x keyword field =
     (if typeof (getProp x field) \<noteq> ''string'' then Rejected (errString keyword field)
      else Resolved ())"
  by (simp add: mustBeString_def errString_def)

lemma mustBeNonEmptyArray_if:
  "\<not> nullish x \<Longrightarrow> mustBeNonEmptyArray x keyword field =
     (if \<not> isArray (getProp x field) then Rejected (errArray keyword field)
      else if elems (getProp x field) = [] then Rejected (errEmpty keyword field)
      else Resolved ())"
  by (simp add: mustBeNonEmptyArray_def errArray_def errEmpty_def)

lemma exists_checks:
  "firstViolated (existsChecks flt name) = Some e \<Longrightarrow> exists flt name = Rejected e"
  using notObject_nullish [of "getProp flt name"]
  by (auto simp: existsChecks_def exists_def mustBeNonEmptyObject_if onlyOneFieldAttribute_if
      mustBeString_if Let_def split: if_splits)

lemma missing_checks:
  "firstViolated (existsChecks flt ''missing'') = Some e \<Longrightarrow> missing flt = Rejected e"
  by (simp add: missing_def exists_checks)

lemma ids_checks:
  "firstViolated (idsChecks flt) = Some e \<Longrightarrow> ids flt = Rejected e"
  using notObject_nullish [of "getProp flt ''ids''"]
  by (auto simp: idsChecks_def ids_def mustBeNonEmptyObject_if onlyOneFieldAttribute_if
      requireAttribute_if mustBeNonEmptyArray_if Let_def split: if_splits)

lemma equals_checks:
  "firstViolated (equalsChecks flt) = Some e \<Longrightarrow> equals flt = Rejected e"
  using notObject_nullish [of "getProp flt ''equals''"]
  by (auto simp: equalsChecks_def equals_def mustBeNonEmptyObject_if onlyOneFieldAttribute_if
      mustBeString_if Let_def split: if_splits)

lemma in_checks:
  "firstViolated (inChecks flt) = Some e \<Longrightarrow> in_kw flt = Rejected e"
  using notObject_nullish [of "getProp flt ''in''"]
  by (auto simp: inChecks_def in_kw_def mustBeNonEmptyObject_if onlyOneFieldAttribute_if
      mustBeNonEmptyArray_if Let_def split: if_splits)

lemma range_checks:
  "firstViolated (rangeChecks flt) = Some e \<Longrightarrow> range_kw flt = Rejected e"
  by (auto simp: rangeChecks_def range_kw_def mustBeNonEmptyObject_if onlyOneFieldAttribute_if
      Let_def firstViolated_append firstViolated_map_find
      split: if_splits option.splits)

lemma regexp_checks:
  "firstViolated (regexpChecks E flt) = Some e \<Longrightarrow> regexp E flt = Rejected e"
  using notObject_nullish [of "getProp (getProp flt ''regexp'')
      (first_key (keys (getProp flt ''regexp'')))"]
  by (auto simp: regexpChecks_def regexp_def mustBeNonEmptyObject_if onlyOneFieldAttribute_if
      requireAttribute_if mustBeString_if Let_def
      split: if_splits option.splits)

lemma geoBoundingBox_checks:
  "firstViolated (geoBoundingBoxChecks E flt) = Some e \<Longrightarrow> geoBoundingBox E flt = Rejected e"
  by (auto simp: geoBoundingBoxChecks_def geoBoundingBox_def mustBeNonEmptyObject_if
      onlyOneFieldAttribute_if Let_def split: if_splits)

lemma geoDistance_checks:
  "firstViolated (geoDistanceChecks E flt) = Some e \<Longrightarrow> geoDistance E flt = Rejected e"
  using notObject_nullish [of "getProp flt ''geoDistance''"]
  by (auto simp: geoDistanceChecks_def geoDistance_def mustBeNonEmptyObject_if
      mustBeString_if Let_def distanceError_def
      split: if_splits sum.splits)

lemma geoDistanceRange_checks:
  "firstViolated (geoDistanceRangeChecks E flt) = Some e
     \<Longrightarrow> geoDistanceRange E flt = Rejected e"
  using notObject_nullish [of "getProp flt ''geoDistanceRange''"]
  by (auto simp: geoDistanceRangeChecks_def geoDistanceRange_def mustBeNonEmptyObject_if
      mustBeString_if Let_def distanceError_def violated_def
      split: if_splits sum.splits)

lemma failsWith_iff: "failsWith p e \<longleftrightarrow> p = Rejected e \<or> p = Thrown e"
  by (cases p) auto

lemma polygonPoints_checks:
  "firstViolated (concat (map (pointChecks E f) ps)) = Some e
     \<Longrightarrow> failsWith (polygonPoints E f ps acc) e"
  by (induction ps arbitrary: acc) (auto simp: pointChecks_def Let_def split: if_splits)

lemma geoPolygon_checks:
  assumes "firstViolated (geoPolygonChecks E flt) = Some e"
  shows "geoPolygon E flt = Rejected e"
proof -
  let ?x = "getProp flt ''geoPolygon''"
  let ?f = "first_key (keys ?x)"
  let ?v = "getProp ?x ?f"
  let ?ps = "getProp ?v ''points''"
  show ?thesis
  proof (cases "notObject ?x \<or> length (keys ?x) > 1 \<or> nullish ?v \<or> \<not> truthy ?ps
                  \<or> \<not> isArray ?ps \<or> elems ?ps = [] \<or> length (elems ?ps) < 3")
    case True
    with assms show ?thesis
      by (auto simp: geoPolygonChecks_def geoPolygon_def mustBeNonEmptyObject_if
          onlyOneFieldAttribute_if mustBeNonEmptyArray_if Let_def
          requireAttribute_def errRequires_def split: if_splits)
  next
    case False
    with assms have "firstViolated (concat (map (pointChecks E ?f) (elems ?ps))) = Some e"
      by (simp add: geoPolygonChecks_def Let_def firstViolated_append)
    from polygonPoints_checks [OF this, of "[]"] False show ?thesis
      by (auto simp: geoPolygon_def mustBeNonEmptyObject_if onlyOneFieldAttribute_if
          requireAttribute_if mustBeNonEmptyArray_if Let_def failsWith_iff)
  qed
qed

lemma badItem_checks:
  "firstViolated (concat (map (itemChecks operand) xs)) = Some e
     \<Longrightarrow> badItem xs = Thrown e
         \<or> (badItem xs = Resolved True \<and> e = BadRequestError
               (''\"'' @ operand @ ''\" operand can only contain non-empty objects''))"
  by (induction xs) (auto simp: itemChecks_def split: if_splits)

lemma standardizeFilterArray_checks:
  assumes "isArray (getProp flt operand)"
    "firstViolated (concat (map (itemChecks operand) (elems (getProp flt operand)))) = Some e"
  shows "failsWith (standardizeFilterArray std flt operand) e"
proof -
  from assms(1) have "\<not> nullish (getProp flt operand)"
    by (cases "getProp flt operand") auto
  with badItem_checks [OF assms(2)] show ?thesis
    by (auto simp: standardizeFilterArray_def)
qed


lemma and_checks:
  assumes "\<not> nullish flt" "firstViolated (arrayChecks flt ''and'') = Some e"
  shows "and_kw std flt ''and'' = Rejected e"
proof (cases "\<not> isArray (getProp flt ''and'') \<or> elems (getProp flt ''and'') = []")
  case True
  with assms show ?thesis
    by (auto simp: arrayChecks_def and_kw_def mustBeNonEmptyArray_if Let_def split: if_splits)
next
  case False
  with assms(2) have "firstViolated (concat (map (itemChecks ''and'')
      (elems (getProp flt ''and'')))) = Some e"
    by (simp add: arrayChecks_def Let_def firstViolated_append)
  from standardizeFilterArray_checks [OF _ this, of std] False assms(1) show ?thesis
    by (auto simp: and_kw_def mustBeNonEmptyArray_if failsWith_iff)
qed

lemma or_checks:
  assumes "\<not> nullish flt" "firstViolated (arrayChecks flt ''or'') = Some e"
  shows "or_kw std flt ''or'' = Rejected e"
proof (cases "\<not> isArray (getProp flt ''or'') \<or> elems (getProp flt ''or'') = []")
  case True
  with assms show ?thesis
    by (auto simp: arrayChecks_def or_kw_def mustBeNonEmptyArray_if Let_def split: if_splits)
next
  case False
  with assms(2) have "firstViolated (concat (map (itemChecks ''or'')
      (elems (getProp flt ''or'')))) = Some e"
    by (simp add: arrayChecks_def Let_def firstViolated_append)
  from standardizeFilterArray_checks [OF _ this, of std] False assms(1) show ?thesis
    by (auto simp: or_kw_def mustBeNonEmptyArray_if failsWith_iff)
qed

lemma not_checks:
  "firstViolated (notChecks flt) = Some e \<Longrightarrow> not_kw std flt = Rejected e"
  using notObject_nullish [of "getProp flt ''not''"]
  by (auto simp: notChecks_def not_kw_def mustBeNonEmptyObject_if onlyOneFieldAttribute_if
      mustBeNonEmptyArray_if Let_def split: if_splits)

lemma bool_checks:
  assumes "firstViolated (boolChecks flt) = Some e"
  shows "bool_kw std flt = Rejected e"
proof (cases "notObject (getProp flt ''bool'')")
  case True
  with assms show ?thesis
    by (simp add: boolChecks_def bool_kw_def mustBeNonEmptyObject_if Let_def)
next
  case False
  with assms have "list_ex (\<lambda>f. f \<notin> set [''must'', ''must_not'', ''should'', ''should_not''])
      (keys (getProp flt ''bool''))"
    and "e = BadRequestError
           ''\"bool\" operand accepts only the following attributes: must, must_not, should, should_not''"
    by (simp_all add: boolChecks_def Let_def split: if_splits)
  with False show ?thesis
    by (simp add: bool_kw_def mustBeNonEmptyObject_if Let_def)
qed

subsubsection \<open>The amended claim\<close>

text \<open>
  Claim C8, amended. The error of the first nested expression that fails is the error of
  the whole filter, unchanged, once the combinator's own tests on its argument have passed:
  \<^item> for \<^verbatim>\<open>and\<close>/\<^verbatim>\<open>or\<close> over non-empty objects, when the items before it resolve (to a
    value other than \<^verbatim>\<open>undefined\<close>/\<^verbatim>\<open>null\<close>) and no item after it throws synchronously;
  \<^item> for \<^verbatim>\<open>not\<close>, when the value under the nested keyword has the shape \<^verbatim>\<open>not\<close> asks for;
  \<^item> for \<^verbatim>\<open>bool\<close> with admitted attributes, taken in the order \<^verbatim>\<open>must\<close>, \<^verbatim>\<open>must_not\<close>,
    \<^verbatim>\<open>should\<close>, \<^verbatim>\<open>should_not\<close>, when the parts before it resolve and (from \<^verbatim>\<open>should\<close> on)
    the seed of the accumulator is an \<^verbatim>\<open>and\<close> node.
  Each validator fails with the error of the first of its own checks that is violated, the
  checks taken in the order of the source (\<open>existsChecks\<close> to \<open>boolChecks\<close>; for
  \<^verbatim>\<open>and\<close> and \<^verbatim>\<open>or\<close> on a filter that is not \<^verbatim>\<open>undefined\<close>/\<^verbatim>\<open>null\<close>). For \<^verbatim>\<open>range\<close>
  these are the checks up to the test that the bounds are numbers: the loop over the bounds
  that follows runs to its end and keeps the error it found last.
\<close>

theorem first_failure_propagates:
  "((op = ''and'' \<or> op = ''or'') \<and> list_all nonEmptyObject (pre @ c # post)
      \<and> map (standardize E) pre = map Resolved rs \<and> list_all (\<lambda>r. \<not> nullish r) rs
      \<and> failsWith (standardize E c) e \<and> firstThrown (map (standardize E) post) = None
     \<longrightarrow> standardize E (JObj [(op, JArr (pre @ c # post))]) = Rejected e)
   \<and> (notCheck k v \<and> failsWith (standardize E (JObj [(k, v)])) e
     \<longrightarrow> standardize E (JObj [(''not'', JObj [(k, v)])]) = Rejected e)
   \<and> (kvs \<noteq> [] \<and> set (map fst kvs) \<subseteq> {''must'', ''must_not'', ''should'', ''should_not''}
     \<longrightarrow> (boolPart E (JObj kvs) ''must'' ''and'' = Rejected e
            \<longrightarrow> standardize E (JObj [(''bool'', JObj kvs)]) = Rejected e)
       \<and> (boolPart E (JObj kvs) ''must'' ''and'' = Resolved f1
          \<and> boolPart E (JObj kvs) ''must_not'' ''or'' = Rejected e
            \<longrightarrow> standardize E (JObj [(''bool'', JObj kvs)]) = Rejected e)
       \<and> (boolPart E (JObj kvs) ''must'' ''and'' = Resolved f1 \<and> isAndNode (boolSeed f1)
          \<and> boolPart E (JObj kvs) ''must_not'' ''or'' = Resolved f2
          \<and> boolPart E (JObj kvs) ''should'' ''or'' = Rejected e
            \<longrightarrow> standardize E (JObj [(''bool'', JObj kvs)]) = Rejected e)
       \<and> (boolPart E (JObj kvs) ''must'' ''and'' = Resolved f1 \<and> isAndNode (boolSeed f1)
          \<and> boolPart E (JObj kvs) ''must_not'' ''or'' = Resolved f2
          \<and> boolPart E (JObj kvs) ''should'' ''or'' = Resolved f3
          \<and> boolPart E (JObj kvs) ''should_not'' ''and'' = Rejected e
            \<longrightarrow> standardize E (JObj [(''bool'', JObj kvs)]) = Rejected e))
   \<and> (firstViolated (existsChecks flt ''exists'') = Some e
        \<longrightarrow> exists flt ''exists'' = Rejected e)
   \<and> (firstViolated (existsChecks flt ''missing'') = Some e \<longrightarrow> missing flt = Rejected e)
   \<and> (firstViolated (idsChecks flt) = Some e \<longrightarrow> ids flt = Rejected e)
   \<and> (firstViolated (equalsChecks flt) = Some e \<longrightarrow> equals flt = Rejected e)
   \<and> (firstViolated (inChecks flt) = Some e \<longrightarrow> in_kw flt = Rejected e)
   \<and> (firstViolated (rangeChecks flt) = Some e \<longrightarrow> range_kw flt = Rejected e)
   \<and> (firstViolated (regexpChecks E flt) = Some e \<longrightarrow> regexp E flt = Rejected e)
   \<and> (firstViolated (geoBoundingBoxChecks E flt) = Some e
        \<longrightarrow> geoBoundingBox E flt = Rejected e)
   \<and> (firstViolated (geoDistanceChecks E flt) = Some e \<longrightarrow> geoDistance E flt = Rejected e)
   \<and> (firstViolated (geoDistanceRangeChecks E flt) = Some e
        \<longrightarrow> geoDistanceRange E flt = Rejected e)
   \<and> (firstViolated (geoPolygonChecks E flt) = Some e \<longrightarrow> geoPolygon E flt = Rejected e)
   \<and> (\<not> nullish flt \<and> firstViolated (arrayChecks flt ''and'') = Some e
        \<longrightarrow> and_kw std flt ''and'' = Rejected e)
   \<and> (\<not> nullish flt \<and> firstViolated (arrayChecks flt ''or'') = Some e
        \<longrightarrow> or_kw std flt ''or'' = Rejected e)
   \<and> (firstViolated (notChecks flt) = Some e \<longrightarrow> not_kw std flt = Rejected e)
   \<and> (firstViolated (boolChecks flt) = Some e \<longrightarrow> bool_kw std flt = Rejected e)"
proof -
  have c1: "(op = ''and'' \<or> op = ''or'') \<and> list_all nonEmptyObject (pre @ c # post)
      \<and> map (standardize E) pre = map Resolved rs \<and> list_all (\<lambda>r. \<not> nullish r) rs
      \<and> failsWith (standardize E c) e \<and> firstThrown (map (standardize E) post) = None
     \<longrightarrow> standardize E (JObj [(op, JArr (pre @ c # post))]) = Rejected e"
  proof
    assume a: "(op = ''and'' \<or> op = ''or'') \<and> list_all nonEmptyObject (pre @ c # post)
      \<and> map (standardize E) pre = map Resolved rs \<and> list_all (\<lambda>r. \<not> nullish r) rs
      \<and> failsWith (standardize E c) e \<and> firstThrown (map (standardize E) post) = None"
    then have a1: "op = ''and'' \<or> op = ''or''"
      and a2: "list_all nonEmptyObject (pre @ c # post)"
      and a3: "map (standardize E) pre = map Resolved rs"
      and a4: "list_all (\<lambda>r. \<not> nullish r) rs"
      and a5: "firstThrown (map (standardize E) post) = None" by blast+
    from a consider "standardize E c = Rejected e" | "standardize E c = Thrown e"
      by (cases "standardize E c") auto
    then show "standardize E (JObj [(op, JArr (pre @ c # post))]) = Rejected e"
    proof cases
      case 1
      from and_or_first_rejected [OF a1 a2 a3 a4 1 a5] show ?thesis .
    next
      case 2
      from and_or_first_thrown [OF a1 a2 a3 2] show ?thesis .
    qed
  qed
  have c2: "notCheck k v \<and> failsWith (standardize E (JObj [(k, v)])) e
     \<longrightarrow> standardize E (JObj [(''not'', JObj [(k, v)])]) = Rejected e"
    using not_propagates by blast
  have c3: "kvs \<noteq> [] \<and> set (map fst kvs) \<subseteq> {''must'', ''must_not'', ''should'', ''should_not''}
     \<longrightarrow> (boolPart E (JObj kvs) ''must'' ''and'' = Rejected e
            \<longrightarrow> standardize E (JObj [(''bool'', JObj kvs)]) = Rejected e)
       \<and> (boolPart E (JObj kvs) ''must'' ''and'' = Resolved f1
          \<and> boolPart E (JObj kvs) ''must_not'' ''or'' = Rejected e
            \<longrightarrow> standardize E (JObj [(''bool'', JObj kvs)]) = Rejected e)
       \<and> (boolPart E (JObj kvs) ''must'' ''and'' = Resolved f1 \<and> isAndNode (boolSeed f1)
          \<and> boolPart E (JObj kvs) ''must_not'' ''or'' = Resolved f2
          \<and> boolPart E (JObj kvs) ''should'' ''or'' = Rejected e
            \<longrightarrow> standardize E (JObj [(''bool'', JObj kvs)]) = Rejected e)
       \<and> (boolPart E (JObj kvs) ''must'' ''and'' = Resolved f1 \<and> isAndNode (boolSeed f1)
          \<and> boolPart E (JObj kvs) ''must_not'' ''or'' = Resolved f2
          \<and> boolPart E (JObj kvs) ''should'' ''or'' = Resolved f3
          \<and> boolPart E (JObj kvs) ''should_not'' ''and'' = Rejected e
            \<longrightarrow> standardize E (JObj [(''bool'', JObj kvs)]) = Rejected e)"
    using bool_propagates [of kvs E e f1 f2 f3] by blast
  have c4: "firstViolated (existsChecks flt ''exists'') = Some e
        \<longrightarrow> exists flt ''exists'' = Rejected e"
    by (rule impI) (erule exists_checks)
  have c5: "firstViolated (existsChecks flt ''missing'') = Some e \<longrightarrow> missing flt = Rejected e"
    by (rule impI) (erule missing_checks)
  have c6: "firstViolated (idsChecks flt) = Some e \<longrightarrow> ids flt = Rejected e"
    by (rule impI) (erule ids_checks)
  have c7: "firstViolated (equalsChecks flt) = Some e \<longrightarrow> equals flt = Rejected e"
    by (rule impI) (erule equals_checks)
  have c8: "firstViolated (inChecks flt) = Some e \<longrightarrow> in_kw flt = Rejected e"
    by (rule impI) (erule in_checks)
  have c9: "firstViolated (rangeChecks flt) = Some e \<longrightarrow> range_kw flt = Rejected e"
    by (rule impI) (erule range_checks)
  have c10: "firstViolated (regexpChecks E flt) = Some e \<longrightarrow> regexp E flt = Rejected e"
    by (rule impI) (erule regexp_checks)
  have c11: "firstViolated (geoBoundingBoxChecks E flt) = Some e
        \<longrightarrow> geoBoundingBox E flt = Rejected e"
    by (rule impI) (erule geoBoundingBox_checks)
  have c12: "firstViolated (geoDistanceChecks E flt) = Some e \<longrightarrow> geoDistance E flt = Rejected e"
    by (rule impI) (erule geoDistance_checks)
  have c13: "firstViolated (geoDistanceRangeChecks E flt) = Some e
        \<longrightarrow> geoDistanceRange E flt = Rejected e"
    by (rule impI) (erule geoDistanceRange_checks)
  have c14: "firstViolated (geoPolygonChecks E flt) = Some e \<longrightarrow> geoPolygon E flt = Rejected e"
    by (rule impI) (erule geoPolygon_checks)
  have c15: "\<not> nullish flt \<and> firstViolated (arrayChecks flt ''and'') = Some e
        \<longrightarrow> and_kw std flt ''and'' = Rejected e"
    by (rule impI, erule conjE, rule and_checks)
  have c16: "\<not> nullish flt \<and> firstViolated (arrayChecks flt ''or'') = Some e
        \<longrightarrow> or_kw std flt ''or'' = Rejected e"
    by (rule impI, erule conjE, rule or_checks)
  have c17: "firstViolated (notChecks flt) = Some e \<longrightarrow> not_kw std flt = Rejected e"
    by (rule impI) (erule not_checks)
  have c18: "firstViolated (boolChecks flt) = Some e \<longrightarrow> bool_kw std flt = Rejected e"
    by (rule impI) (erule bool_checks)
  note tl = conjI [OF c15 conjI [OF c16 conjI [OF c17 c18]]]
  note tl = conjI [OF c11 conjI [OF c12 conjI [OF c13 conjI [OF c14 tl]]]]
  note tl = conjI [OF c7 conjI [OF c8 conjI [OF c9 conjI [OF c10 tl]]]]
  note tl = conjI [OF c4 conjI [OF c5 conjI [OF c6 tl]]]
  show ?thesis
    by (rule conjI [OF c1 conjI [OF c2 conjI [OF c3 tl]]])
qed


definition emptyFieldError :: error where
  "emptyFieldError = BadRequestError ''exists: cannot test empty field name''"

definition emptyField :: jv where
  "emptyField = JObj [(''exists'', JObj [(''field'', JStr [])])]"

definition twoFaults :: jv where
  "twoFaults = JObj [(''exists'', JObj [(''field'', JNum (Finite 5)), (''other'', JBool True)])]"

text \<open>
  Instances: \<^verbatim>\<open>{and: [{exists: {field: "a"}}, {exists: {field: ""}}, {equals: {}}]}\<close>, where
  the second item is the first to fail; \<^verbatim>\<open>{not: {exists: {field: ""}}}\<close>;
  \<^verbatim>\<open>{bool: {must: [{exists: {field: ""}}]}}\<close> and \<^verbatim>\<open>{bool: {should: [{exists: {field: ""}}]}}\<close>;
  the fourth check of \<^verbatim>\<open>exists\<close> on \<^verbatim>\<open>{exists: {field: ""}}\<close>, and
  \<^verbatim>\<open>{exists: {field: 5, other: true}}\<close>, which violates the second and the third check of
  \<^verbatim>\<open>exists\<close> and fails with the error of the second.
\<close>

theorem first_failure_propagates_witness:
  "list_all nonEmptyObject ([existsFilter ''a''] @ emptyField # [JObj [(''equals'', JObj [])]])
   \<and> map (standardize sampleEnv) [existsFilter ''a''] = map Resolved [existsFilter ''a'']
   \<and> failsWith (standardize sampleEnv emptyField) emptyFieldError
   \<and> firstThrown (map (standardize sampleEnv) [JObj [(''equals'', JObj [])]]) = None
   \<and> standardize sampleEnv (JObj [(''and'', JArr
         ([existsFilter ''a''] @ emptyField # [JObj [(''equals'', JObj [])]]))])
       = Rejected emptyFieldError
   \<and> notCheck ''exists'' (JObj [(''field'', JStr [])])
   \<and> standardize sampleEnv (JObj [(''not'', JObj [(''exists'', JObj [(''field'', JStr [])])])])
       = Rejected emptyFieldError
   \<and> boolPart sampleEnv (JObj [(''must'', JArr [emptyField])]) ''must'' ''and''
       = Rejected emptyFieldError
   \<and> standardize sampleEnv (JObj [(''bool'', JObj [(''must'', JArr [emptyField])])])
       = Rejected emptyFieldError
   \<and> isAndNode (boolSeed JNull)
   \<and> boolPart sampleEnv (JObj [(''should'', JArr [emptyField])]) ''should'' ''or''
       = Rejected emptyFieldError
   \<and> standardize sampleEnv (JObj [(''bool'', JObj [(''should'', JArr [emptyField])])])
       = Rejected emptyFieldError
   \<and> firstViolated (existsChecks emptyField ''exists'') = Some emptyFieldError
   \<and> exists emptyField ''exists'' = Rejected emptyFieldError
   \<and> firstViolated (existsChecks twoFaults ''exists'') = Some (errOneAttribute ''exists'')
   \<and> exists twoFaults ''exists'' = Rejected (errOneAttribute ''exists'')"
proof -
  let ?post = "[JObj [(''equals'', JObj [])]]"
  let ?m = "[(''must'', JArr [emptyField])]"
  let ?s = "[(''should'', JArr [emptyField])]"
  have c: "standardize sampleEnv emptyField = Rejected emptyFieldError"
    unfolding emptyFieldError_def by code_simp
  have h1: "list_all nonEmptyObject ([existsFilter ''a''] @ emptyField # ?post)"
    by (simp add: nonEmptyObject_def existsFilter_def emptyField_def)
  have h2: "map (standardize sampleEnv) [existsFilter ''a''] = map Resolved [existsFilter ''a'']"
    by code_simp
  have h3: "list_all (\<lambda>r. \<not> nullish r) [existsFilter ''a'']"
    by (simp add: existsFilter_def)
  have h4: "failsWith (standardize sampleEnv emptyField) emptyFieldError"
    by (simp add: c)
  have h5: "firstThrown (map (standardize sampleEnv) ?post) = None"
    by code_simp
  have n1: "notCheck ''exists'' (JObj [(''field'', JStr [])])"
    by (simp add: notCheck_def nonEmptyObject_def)
  have n2: "failsWith (standardize sampleEnv (JObj [(''exists'', JObj [(''field'', JStr [])])]))
              emptyFieldError"
    using h4 by (simp add: emptyField_def)
  have b1: "boolPart sampleEnv (JObj ?m) ''must'' ''and'' = Rejected emptyFieldError"
    unfolding emptyFieldError_def by code_simp
  have b2: "boolPart sampleEnv (JObj ?s) ''must'' ''and'' = Resolved JNull"
    "boolPart sampleEnv (JObj ?s) ''must_not'' ''or'' = Resolved JNull"
    by (simp_all add: boolPart_def)
  have b3: "boolPart sampleEnv (JObj ?s) ''should'' ''or'' = Rejected emptyFieldError"
    unfolding emptyFieldError_def by code_simp
  have b4: "isAndNode (boolSeed JNull)"
    by (simp add: isAndNode_def boolSeed_def)
  have v1: "firstViolated (existsChecks emptyField ''exists'') = Some emptyFieldError"
    by (simp add: existsChecks_def emptyField_def emptyFieldError_def notObject_def)
  have v2: "firstViolated (existsChecks twoFaults ''exists'') = Some (errOneAttribute ''exists'')"
    by (simp add: existsChecks_def twoFaults_def notObject_def)
  note t1 = first_failure_propagates [of "''and''" "[existsFilter ''a'']" emptyField ?post
      sampleEnv "[existsFilter ''a'']" emptyFieldError "''exists''" "JObj [(''field'', JStr [])]"
      ?m JNull JNull JNull emptyField "standardize sampleEnv"]
  note t2 = first_failure_propagates [of "''and''" "[existsFilter ''a'']" emptyField ?post
      sampleEnv "[existsFilter ''a'']" emptyFieldError "''exists''" "JObj [(''field'', JStr [])]"
      ?s JNull JNull JNull emptyField "standardize sampleEnv"]
  note t3 = first_failure_propagates [of "''and''" "[existsFilter ''a'']" emptyField ?post
      sampleEnv "[existsFilter ''a'']" "errOneAttribute ''exists''" "''exists''"
      "JObj [(''field'', JStr [])]" ?s JNull JNull JNull twoFaults "standardize sampleEnv"]
  note andOr = t1 [THEN conjunct1]
  note neg = t1 [THEN conjunct2, THEN conjunct1]
  note boolMustPart = t1 [THEN conjunct2, THEN conjunct2, THEN conjunct1]
  note boolShouldPart = t2 [THEN conjunct2, THEN conjunct2, THEN conjunct1]
  note chain1 = t1 [THEN conjunct2, THEN conjunct2, THEN conjunct2, THEN conjunct1]
  note chain2 = t3 [THEN conjunct2, THEN conjunct2, THEN conjunct2, THEN conjunct1]
  from andOr h1 h2 h3 h4 h5 have r1: "standardize sampleEnv (JObj [(''and'', JArr
         ([existsFilter ''a''] @ emptyField # ?post))]) = Rejected emptyFieldError"
    by blast
  from neg n1 n2 have r2: "standardize sampleEnv
      (JObj [(''not'', JObj [(''exists'', JObj [(''field'', JStr [])])])])
       = Rejected emptyFieldError" by blast
  have k1: "?m \<noteq> [] \<and> set (map fst ?m) \<subseteq> {''must'', ''must_not'', ''should'', ''should_not''}"
    by simp
  have k2: "?s \<noteq> [] \<and> set (map fst ?s) \<subseteq> {''must'', ''must_not'', ''should'', ''should_not''}"
    by simp
  from boolMustPart k1 b1 have r3: "standardize sampleEnv (JObj [(''bool'', JObj ?m)])
       = Rejected emptyFieldError" by blast
  from boolShouldPart k2 b2 b3 b4 have r4: "standardize sampleEnv (JObj [(''bool'', JObj ?s)])
       = Rejected emptyFieldError" by blast
  from chain1 v1 have r5: "exists emptyField ''exists'' = Rejected emptyFieldError"
    by (rule mp)
  from chain2 v2 have r6: "exists twoFaults ''exists'' = Rejected (errOneAttribute ''exists'')"
    by (rule mp)
  note res = conjI [OF v1 conjI [OF r5 conjI [OF v2 r6]]]
  note res = conjI [OF b1 conjI [OF r3 conjI [OF b4 conjI [OF b3 conjI [OF r4 res]]]]]
  note res = conjI [OF h4 conjI [OF h5 conjI [OF r1 conjI [OF n1 conjI [OF r2 res]]]]]
  show ?thesis
    by (rule conjI [OF h1 conjI [OF h2 res]])
qed

text \<open>
  Claim C8 as stated lets every error of a nested expression through unchanged. The
  expression \<^verbatim>\<open>{exists: "x"}\<close> fails with the error of \<^verbatim>\<open>exists\<close>; under \<^verbatim>\<open>not\<close> the test
  that \<^verbatim>\<open>not\<close> makes itself comes first and the whole fails with the error of \<^verbatim>\<open>not\<close>.
\<close>

theorem not_reports_its_own_error:
  "standardize sampleEnv (JObj [(''exists'', JStr ''x'')])
     = Rejected (BadRequestError ''\"exists\" must be a non-empty object'')
   \<and> standardize sampleEnv (JObj [(''not'', JObj [(''exists'', JStr ''x'')])])
     = Rejected (BadRequestError ''\"not.exists\" must be a non-empty object'')"
  by code_simp

text \<open>
  Outside the amended claim: \<^verbatim>\<open>range\<close> tests the bounds in one loop that runs to its end,
  and the error it reports is the one found last.
\<close>

lemma range_reports_last_error:
  "standardize sampleEnv (rangeFilter ''age''
      [(''lt'', JNum (Finite 1)), (''lte'', JNum (Finite 2)),
       (''gt'', JNum (Finite 3)), (''gte'', JNum (Finite 4))])
     = Rejected (BadRequestError ''\"range.age:\" only 1 lower boundary allowed'')"
  by code_simp

section \<open>The standardizer on a store\<close>

text \<open>
  Whether the input is modified depends on which objects are shared, so the objects get
  addresses here. A store is the list of the cells allocated so far, an address is an index
  into it; a value is a primitive or the address of a cell. A new cell is appended;
  an assignment to a property and \<^verbatim>\<open>push\<close> replace the cell at an address.
\<close>

datatype hv = HUndefined | HNull | HBool bool | HNum jnum | HStr string | HRef nat | HThis

datatype cell = CObj "(string \<times> hv) list" | CArr "hv list"

type_synonym heap = "cell list"

fun hnullish :: "hv \<Rightarrow> bool" where
  "hnullish HUndefined = True"
| "hnullish HNull = True"
| "hnullish v = False"

fun htruthy :: "hv \<Rightarrow> bool" where
  "htruthy HUndefined = False"
| "htruthy HNull = False"
| "htruthy (HBool b) = b"
| "htruthy (HNum n) = (n \<noteq> NaN \<and> n \<noteq> Finite 0)"
| "htruthy (HStr s) = (s \<noteq> [])"
| "htruthy (HRef a) = True"
| "htruthy HThis = True"

text \<open>\<^verbatim>\<open>typeof v === 'object'\<close>\<close>

fun hisObject :: "hv \<Rightarrow> bool" where
  "hisObject HNull = True"
| "hisObject (HRef a) = True"
| "hisObject HThis = True"
| "hisObject v = False"

definition cellAt :: "heap \<Rightarrow> hv \<Rightarrow> cell option" where
  "cellAt h v = (case v of HRef a \<Rightarrow> if a < length h then Some (h ! a) else None | _ \<Rightarrow> None)"

definition hisArray :: "heap \<Rightarrow> hv \<Rightarrow> bool" where
  "hisArray h v = (case cellAt h v of Some (CArr xs) \<Rightarrow> True | _ \<Rightarrow> False)"

definition helems :: "heap \<Rightarrow> hv \<Rightarrow> hv list" where
  "helems h v = (case cellAt h v of Some (CArr xs) \<Rightarrow> xs | _ \<Rightarrow> [])"

definition hkeys :: "heap \<Rightarrow> hv \<Rightarrow> string list" where
  "hkeys h v = (case cellAt h v of
       Some (CObj kvs) \<Rightarrow> map fst kvs
     | Some (CArr xs) \<Rightarrow> map show_nat [0..<length xs]
     | None \<Rightarrow> (case v of HStr s \<Rightarrow> map show_nat [0..<length s] | _ \<Rightarrow> []))"

definition hprop :: "heap \<Rightarrow> hv \<Rightarrow> string \<Rightarrow> hv" where
  "hprop h v k = (case cellAt h v of
       Some (CObj kvs) \<Rightarrow> (case map_of kvs k of Some x \<Rightarrow> x | None \<Rightarrow> HUndefined)
     | _ \<Rightarrow> HUndefined)"

definition hfirstKey :: "heap \<Rightarrow> hv \<Rightarrow> string option" where
  "hfirstKey h v = (case hkeys h v of [] \<Rightarrow> None | k # ks \<Rightarrow> Some k)"

definition alloc :: "heap \<Rightarrow> cell \<Rightarrow> hv \<times> heap" where
  "alloc h c = (HRef (length h), h @ [c])"

fun setEntryH :: "(string \<times> hv) list \<Rightarrow> string \<Rightarrow> hv \<Rightarrow> (string \<times> hv) list" where
  "setEntryH [] k v = [(k, v)]"
| "setEntryH ((k', v') # kvs) k v =
     (if k' = k then (k, v) # kvs else (k', v') # setEntryH kvs k v)"

text \<open>\<^verbatim>\<open>o[k] = x\<close> on the object at an address.\<close>

definition setField :: "heap \<Rightarrow> hv \<Rightarrow> string \<Rightarrow> hv \<Rightarrow> heap" where
  "setField h v k x = (case (v, cellAt h v) of
       (HRef a, Some (CObj kvs)) \<Rightarrow> h[a := CObj (setEntryH kvs k x)]
     | _ \<Rightarrow> h)"

text \<open>\<^verbatim>\<open>xs.push(x)\<close> on the array at an address.\<close>

definition pushItem :: "heap \<Rightarrow> hv \<Rightarrow> hv \<Rightarrow> heap" where
  "pushItem h v x = (case (v, cellAt h v) of
       (HRef a, Some (CArr xs)) \<Rightarrow> h[a := CArr (xs @ [x])]
     | _ \<Rightarrow> h)"

text \<open>
  Reading the tree under a value, down to a depth, and allocating a tree. The validators
  of the leaf predicates only read their argument and build their result from values
  and strings and numbers of the argument, so they are run on the tree that is read.
\<close>

fun load :: "nat \<Rightarrow> heap \<Rightarrow> hv \<Rightarrow> jv" where
  "load d h HUndefined = JUndefined"
| "load d h HNull = JNull"
| "load d h (HBool b) = JBool b"
| "load d h (HNum n) = JNum n"
| "load d h (HStr s) = JStr s"
| "load d h HThis = JThis"
| "load 0 h (HRef a) = JUndefined"
| "load (Suc d) h (HRef a) =
     (if a < length h
      then (case h ! a of
              CObj kvs \<Rightarrow> JObj (map (\<lambda>(k, x). (k, load d h x)) kvs)
            | CArr xs \<Rightarrow> JArr (map (load d h) xs))
      else JUndefined)"

fun build :: "jv \<Rightarrow> heap \<Rightarrow> hv \<times> heap"
  and buildList :: "jv list \<Rightarrow> heap \<Rightarrow> hv list \<times> heap"
  and buildFields :: "(string \<times> jv) list \<Rightarrow> heap \<Rightarrow> (string \<times> hv) list \<times> heap" where
  "build JUndefined h = (HUndefined, h)"
| "build JNull h = (HNull, h)"
| "build (JBool b) h = (HBool b, h)"
| "build (JNum n) h = (HNum n, h)"
| "build (JStr s) h = (HStr s, h)"
| "build JThis h = (HThis, h)"
| "build (JArr xs) h = (let (ys, h') = buildList xs h in alloc h' (CArr ys))"
| "build (JObj kvs) h = (let (fs, h') = buildFields kvs h in alloc h' (CObj fs))"
| "buildList [] h = ([], h)"
| "buildList (x # xs) h =
     (let (y, h') = build x h; (ys, h'') = buildList xs h' in (y # ys, h''))"
| "buildFields [] h = ([], h)"
| "buildFields ((k, x) # kvs) h =
     (let (y, h') = build x h; (fs, h'') = buildFields kvs h' in ((k, y) # fs, h''))"


subsection \<open>Leaf predicates on the store\<close>

text \<open>
  A validator that hands back its argument (\<^verbatim>\<open>return filter\<close>) gives the address it
  was given; one that builds an object gives a new one.
\<close>

definition hpass :: "(jv \<Rightarrow> jv outcome) \<Rightarrow> nat \<Rightarrow> heap \<Rightarrow> hv \<Rightarrow> hv outcome \<times> heap" where
  "hpass validator d h v = (case validator (load d h v) of
       Resolved r \<Rightarrow> (Resolved v, h)
     | Rejected e \<Rightarrow> (Rejected e, h)
     | Thrown e \<Rightarrow> (Thrown e, h))"

definition hfresh :: "(jv \<Rightarrow> jv outcome) \<Rightarrow> nat \<Rightarrow> heap \<Rightarrow> hv \<Rightarrow> hv outcome \<times> heap" where
  "hfresh validator d h v = (case validator (load d h v) of
       Resolved r \<Rightarrow> (let (x, h') = build r h in (Resolved x, h'))
     | Rejected e \<Rightarrow> (Rejected e, h)
     | Thrown e \<Rightarrow> (Thrown e, h))"

subsection \<open>Combinators on the store\<close>

definition hmustBeNonEmptyObject :: "heap \<Rightarrow> hv \<Rightarrow> string \<Rightarrow> string list outcome" where
  "hmustBeNonEmptyObject h flt keyword =
     (if \<not> htruthy flt \<or> \<not> hisObject flt \<or> hisArray h flt \<or> length (hkeys h flt) = 0
      then Rejected (BadRequestError (''\"'' @ keyword @ ''\" must be a non-empty object''))
      else Resolved (hkeys h flt))"

definition hmustBeNonEmptyArray :: "heap \<Rightarrow> hv \<Rightarrow> string \<Rightarrow> string \<Rightarrow> unit outcome" where
  "hmustBeNonEmptyArray h flt keyword field =
     (if hnullish flt then Thrown TypeError
      else if \<not> hisArray h (hprop h flt field)
      then Rejected (BadRequestError
             (''Attribute \"'' @ field @ ''\" in \"'' @ keyword @ ''\" must be an array''))
      else if length (helems h (hprop h flt field)) = 0
      then Rejected (BadRequestError
             (''Attribute \"'' @ field @ ''\" in  \"'' @ keyword @ ''\" cannot be empty''))
      else Resolved ())"

fun hbadItem :: "heap \<Rightarrow> hv list \<Rightarrow> bool outcome" where
  "hbadItem h [] = Resolved False"
| "hbadItem h (x # xs) =
     (if \<not> hisObject x \<or> hisArray h x then Resolved True
      else if x = HNull then Thrown TypeError
      else if length (hkeys h x) = 0 then Resolved True
      else hbadItem h xs)"

fun hvToInt32 :: "hv \<Rightarrow> 32 word" where
  "hvToInt32 (HBool b) = (if b then 1 else 0)"
| "hvToInt32 (HNum (Finite r)) = word_of_int (if r \<ge> 0 then \<lfloor>r\<rfloor> else \<lceil>r\<rceil>)"
| "hvToInt32 v = 0"

definition hbitAnd :: "hv \<Rightarrow> hv \<Rightarrow> hv" where
  "hbitAnd a b = HNum (Finite (of_int (sint (and (hvToInt32 a) (hvToInt32 b)))))"

text \<open>\<^verbatim>\<open>xs.concat(x)\<close>: the items of a new array.\<close>

definition hconcat :: "heap \<Rightarrow> hv \<Rightarrow> hv \<Rightarrow> hv list" where
  "hconcat h xs x = (if hisArray h x then helems h xs @ helems h x else helems h xs @ [x])"

text \<open>
  The reducer of \<^verbatim>\<open>_standardizeFilterArray\<close>; \<open>res\<close> is the address of \<^verbatim>\<open>result\<close>. It
  gives the error it throws, if any, and the store it leaves.
\<close>

definition hreducer :: "heap \<Rightarrow> hv \<Rightarrow> string \<Rightarrow> hv \<Rightarrow> error option \<times> heap" where
  "hreducer h res operand sub =
     (if hnullish sub then (Some TypeError, h)
      else if hfirstKey h sub = Some operand
      then (let h1 = setField h res ''_isLeaf''
                       (hbitAnd (hprop h res ''_isLeaf'') (hprop h sub ''_isLeaf''));
                (newArr, h2) = alloc h1 (CArr (hconcat h1 (hprop h1 res operand)
                                                 (hprop h1 sub operand)));
                h3 = setField h2 res operand newArr
            in (None, h3))
      else (let h1 = pushItem h (hprop h res operand) sub;
                h2 = (if hfirstKey h sub \<in> {Some ''and'', Some ''or''}
                      then setField h1 res ''_isLeaf'' (HBool False) else h1)
            in (None, h2)))"

fun hreduce :: "heap \<Rightarrow> hv \<Rightarrow> string \<Rightarrow> hv outcome list \<Rightarrow> error option \<times> heap" where
  "hreduce h res operand [] = (None, h)"
| "hreduce h res operand (Resolved sub # rs) =
     (case hreducer h res operand sub of
        (Some e, h') \<Rightarrow> (Some e, h')
      | (None, h') \<Rightarrow> hreduce h' res operand rs)"
| "hreduce h res operand (Rejected e # rs) = (Some e, h)"
| "hreduce h res operand (Thrown e # rs) = (Some e, h)"

text \<open>
  \<^verbatim>\<open>filter[operand].map(f => this.standardize(f))\<close>: the calls are made one after the
  other, each on the store the one before left; a call that throws ends the \<^verbatim>\<open>map\<close>.
  The callbacks of the promises of one item are run to their end before the call for the
  next item is made.
\<close>

fun hmapStd :: "(heap \<Rightarrow> hv \<Rightarrow> hv outcome \<times> heap) \<Rightarrow> heap \<Rightarrow> hv list
    \<Rightarrow> hv outcome list \<times> heap" where
  "hmapStd std h [] = ([], h)"
| "hmapStd std h (c # cs) =
     (case std h c of
        (Thrown e, h') \<Rightarrow> ([Thrown e], h')
      | (r, h') \<Rightarrow> (let (rs, h'') = hmapStd std h' cs in (r # rs, h'')))"

definition hstandardizeFilterArray ::
  "(heap \<Rightarrow> hv \<Rightarrow> hv outcome \<times> heap) \<Rightarrow> heap \<Rightarrow> hv \<Rightarrow> string \<Rightarrow> hv outcome \<times> heap" where
  "hstandardizeFilterArray std h flt operand =
     (if hnullish (hprop h flt operand) then (Thrown TypeError, h)
      else case hbadItem h (helems h (hprop h flt operand)) of
        Thrown e \<Rightarrow> (Thrown e, h)
      | Rejected e \<Rightarrow> (Rejected e, h)
      | Resolved True \<Rightarrow> (Rejected (BadRequestError
          (''\"'' @ operand @ ''\" operand can only contain non-empty objects'')), h)
      | Resolved False \<Rightarrow>
          (let (arr, h1) = alloc h (CArr []);
               (res, h2) = alloc h1 (CObj [(operand, arr), (''_isLeaf'', HBool True)]);
               (subs, h3) = hmapStd std h2 (helems h (hprop h flt operand))
           in case firstThrown subs of
                Some e \<Rightarrow> (Thrown e, h3)
              | None \<Rightarrow>
                  (case hreduce h3 res operand subs of
                     (Some e, h4) \<Rightarrow> (Rejected e, h4)
                   | (None, h4) \<Rightarrow>
                       (let items = helems h4 (hprop h4 res operand) in
                        if length items = 1 then (Resolved (items ! 0), h4)
                        else (Resolved res, h4)))))"

text \<open>A \<^verbatim>\<open>.then\<close> around a call: what it throws is a rejection.\<close>

fun caught :: "'a outcome \<times> heap \<Rightarrow> 'a outcome \<times> heap" where
  "caught (Thrown e, h) = (Rejected e, h)"
| "caught (r, h) = (r, h)"

definition hand :: "(heap \<Rightarrow> hv \<Rightarrow> hv outcome \<times> heap) \<Rightarrow> heap \<Rightarrow> hv \<Rightarrow> string
    \<Rightarrow> hv outcome \<times> heap" where
  "hand std h flt keyword = (case hmustBeNonEmptyArray h flt ''and'' keyword of
       Resolved u \<Rightarrow> caught (hstandardizeFilterArray std h flt ''and'')
     | Rejected e \<Rightarrow> (Rejected e, h)
     | Thrown e \<Rightarrow> (Thrown e, h))"

definition hor :: "(heap \<Rightarrow> hv \<Rightarrow> hv outcome \<times> heap) \<Rightarrow> heap \<Rightarrow> hv \<Rightarrow> string
    \<Rightarrow> hv outcome \<times> heap" where
  "hor std h flt keyword = (case hmustBeNonEmptyArray h flt ''or'' keyword of
       Resolved u \<Rightarrow> caught (hstandardizeFilterArray std h flt ''or'')
     | Rejected e \<Rightarrow> (Rejected e, h)
     | Thrown e \<Rightarrow> (Thrown e, h))"

definition hnot :: "(heap \<Rightarrow> hv \<Rightarrow> hv outcome \<times> heap) \<Rightarrow> heap \<Rightarrow> hv \<Rightarrow> hv outcome \<times> heap" where
  "hnot std h flt =
     (case andThen (hmustBeNonEmptyObject h (hprop h flt ''not'') ''not'') (\<lambda>flds.
           andThen (onlyOneFieldAttribute flds ''not'') (\<lambda>flds.
           let kwd = first_key flds in
           andThen (if kwd = ''and'' \<or> kwd = ''or''
                    then hmustBeNonEmptyArray h (hprop h flt ''not'') ''not'' kwd
                    else andThen (hmustBeNonEmptyObject h (hprop h (hprop h flt ''not'') kwd)
                           (''not.'' @ kwd)) (\<lambda>_. Resolved ())) (\<lambda>_. Resolved ()))) of
        Resolved u \<Rightarrow>
          (case std h (hprop h flt ''not'') of
             (Resolved result, h') \<Rightarrow>
               (let (x, h'') = alloc h' (CObj [(''not'', result)]) in (Resolved x, h''))
           | (Rejected e, h') \<Rightarrow> (Rejected e, h')
           | (Thrown e, h') \<Rightarrow> (Rejected e, h'))
      | Rejected e \<Rightarrow> (Rejected e, h)
      | Thrown e \<Rightarrow> (Rejected e, h))"


text \<open>
  The two assignments of \<^verbatim>\<open>bool\<close> to \<^verbatim>\<open>standardized\<close>, which may be the object that
  \<^verbatim>\<open>this.and\<close> resolved to: the array \<^verbatim>\<open>concat\<close> gives is new, the properties are set in
  the object at the address \<open>s\<close>.
\<close>

definition hboolAppend :: "heap \<Rightarrow> hv \<Rightarrow> hv \<Rightarrow> error option \<times> heap" where
  "hboolAppend h s x =
     (if hisArray h (hprop h s ''and'')
      then (let (newArr, h1) = alloc h (CArr (hconcat h (hprop h s ''and'') x));
                h2 = setField h1 s ''and'' newArr;
                h3 = setField h2 s ''_isLeaf'' (HBool False)
            in (None, h3))
      else (Some TypeError, h))"

definition hboolFinish :: "heap \<Rightarrow> hv \<Rightarrow> hv outcome" where
  "hboolFinish h s =
     (if s = HThis then Resolved s
      else if hisArray h (hprop h s ''and'')
      then (if length (helems h (hprop h s ''and'')) = 1
            then Resolved (helems h (hprop h s ''and'') ! 0) else Resolved s)
      else case hprop h s ''and'' of
        HStr str \<Rightarrow> if length str = 1 then Resolved (HStr str) else Resolved s
      | HUndefined \<Rightarrow> Rejected TypeError
      | HNull \<Rightarrow> Rejected TypeError
      | _ \<Rightarrow> Resolved s)"

text \<open>
  An attribute of \<^verbatim>\<open>bool\<close>: when present, the object \<^verbatim>\<open>{and: ...}\<close> or \<^verbatim>\<open>{or: ...}\<close> is made
  around it and \<^verbatim>\<open>this.and\<close> or \<^verbatim>\<open>this.or\<close> is called on that.
\<close>

definition hpart :: "string \<Rightarrow> (heap \<Rightarrow> hv \<Rightarrow> hv outcome \<times> heap) \<Rightarrow> heap \<Rightarrow> hv \<Rightarrow> string
    \<Rightarrow> hv outcome \<times> heap" where
  "hpart operand std h b attribute =
     (if htruthy (hprop h b attribute)
      then (let (w, h1) = alloc h (CObj [(operand, hprop h b attribute)]) in
            caught (if operand = ''and'' then hand std h1 w ''and'' else hor std h1 w ''or''))
      else (Resolved HNull, h))"

definition hnegated :: "heap \<Rightarrow> hv \<Rightarrow> hv \<Rightarrow> error option \<times> heap" where
  "hnegated h s f =
     (if htruthy f
      then (let (nf, h1) = alloc h (CObj [(''not'', f)]) in hboolAppend h1 s nf)
      else (None, h))"

definition hboolShouldNot :: "heap \<Rightarrow> hv \<Rightarrow> hv \<Rightarrow> hv outcome \<times> heap" where
  "hboolShouldNot h s f = (case hnegated h s f of
       (Some e, h') \<Rightarrow> (Rejected e, h')
     | (None, h') \<Rightarrow> (hboolFinish h' s, h'))"

definition hboolShould :: "(heap \<Rightarrow> hv \<Rightarrow> hv outcome \<times> heap) \<Rightarrow> heap \<Rightarrow> hv \<Rightarrow> hv \<Rightarrow> hv
    \<Rightarrow> hv outcome \<times> heap" where
  "hboolShould std h b s f =
     (case (if htruthy f then hboolAppend h s f else (None, h)) of
        (Some e, h') \<Rightarrow> (Rejected e, h')
      | (None, h') \<Rightarrow>
          (case hpart ''and'' std h' b ''should_not'' of
             (Resolved f', h'') \<Rightarrow> hboolShouldNot h'' s f'
           | (Rejected e, h'') \<Rightarrow> (Rejected e, h'')
           | (Thrown e, h'') \<Rightarrow> (Rejected e, h'')))"

definition hboolMustNot :: "(heap \<Rightarrow> hv \<Rightarrow> hv outcome \<times> heap) \<Rightarrow> heap \<Rightarrow> hv \<Rightarrow> hv \<Rightarrow> hv
    \<Rightarrow> hv outcome \<times> heap" where
  "hboolMustNot std h b s f =
     (case hnegated h s f of
        (Some e, h') \<Rightarrow> (Rejected e, h')
      | (None, h') \<Rightarrow>
          (case hpart ''or'' std h' b ''should'' of
             (Resolved f', h'') \<Rightarrow> hboolShould std h'' b s f'
           | (Rejected e, h'') \<Rightarrow> (Rejected e, h'')
           | (Thrown e, h'') \<Rightarrow> (Rejected e, h'')))"

definition hboolMust :: "(heap \<Rightarrow> hv \<Rightarrow> hv outcome \<times> heap) \<Rightarrow> heap \<Rightarrow> hv \<Rightarrow> hv \<Rightarrow> hv
    \<Rightarrow> hv outcome \<times> heap" where
  "hboolMust std h b s0 f =
     (case hpart ''or'' std h b ''must_not'' of
        (Resolved f', h') \<Rightarrow> hboolMustNot std h' b (if htruthy f then f else s0) f'
      | (Rejected e, h') \<Rightarrow> (Rejected e, h')
      | (Thrown e, h') \<Rightarrow> (Rejected e, h'))"

definition hbool :: "(heap \<Rightarrow> hv \<Rightarrow> hv outcome \<times> heap) \<Rightarrow> heap \<Rightarrow> hv \<Rightarrow> hv outcome \<times> heap" where
  "hbool std h flt =
     (let b = hprop h flt ''bool'';
          (arr, h1) = alloc h (CArr []);
          (s0, h2) = alloc h1 (CObj [(''and'', arr), (''_isLeaf'', HBool True)])
      in case hmustBeNonEmptyObject h b ''bool'' of
           Resolved flds \<Rightarrow>
             if list_ex (\<lambda>f. f \<notin> set [''must'', ''must_not'', ''should'', ''should_not'']) flds
             then (Rejected (BadRequestError
               ''\"bool\" operand accepts only the following attributes: must, must_not, should, should_not''), h2)
             else (case hpart ''and'' std h2 b ''must'' of
                     (Resolved f, h3) \<Rightarrow> hboolMust std h3 b s0 f
                   | (Rejected e, h3) \<Rightarrow> (Rejected e, h3)
                   | (Thrown e, h3) \<Rightarrow> (Rejected e, h3))
         | Rejected e \<Rightarrow> (Rejected e, h2)
         | Thrown e \<Rightarrow> (Rejected e, h2))"

subsection \<open>Dispatch on the store\<close>

definition hdispatch ::
  "env \<Rightarrow> (heap \<Rightarrow> hv \<Rightarrow> hv outcome \<times> heap) \<Rightarrow> nat \<Rightarrow> string \<Rightarrow> heap \<Rightarrow> hv
    \<Rightarrow> hv outcome \<times> heap" where
  "hdispatch E std d k h filters =
     (if k = ''exists'' then hpass (\<lambda>f. exists f ''exists'') d h filters
      else if k = ''ids'' then hfresh ids d h filters
      else if k = ''missing'' then hfresh missing d h filters
      else if k = ''range'' then hpass range_kw d h filters
      else if k = ''regexp'' then hpass (regexp E) d h filters
      else if k = ''equals'' then hpass equals d h filters
      else if k = ''in'' then hfresh in_kw d h filters
      else if k = ''geoBoundingBox'' then hfresh (geoBoundingBox E) d h filters
      else if k = ''geoDistance'' then hfresh (geoDistance E) d h filters
      else if k = ''geoDistanceRange'' then hfresh (geoDistanceRange E) d h filters
      else if k = ''geoPolygon'' then hfresh (geoPolygon E) d h filters
      else if k = ''and'' then hand std h filters ''and''
      else if k = ''or'' then hor std h filters ''or''
      else if k = ''not'' then hnot std h filters
      else if k = ''bool'' then hbool std h filters
      else if k = ''standardize'' then (Thrown RangeError, h)
      else if k = ''_standardizeFilterArray''
      then hstandardizeFilterArray std h filters ''undefined''
      else if k \<in> set [''constructor'', ''__proto__'', ''__defineGetter__'', ''__defineSetter__'']
      then (Thrown TypeError, h)
      else if k \<in> set [''hasOwnProperty'', ''isPrototypeOf'', ''propertyIsEnumerable'']
      then (Resolved (HBool False), h)
      else if k \<in> set [''__lookupGetter__'', ''__lookupSetter__''] then (Resolved HUndefined, h)
      else if k \<in> set [''toString'', ''toLocaleString'']
      then (Resolved (HStr ''[object Object]''), h)
      else if k = ''valueOf'' then (Resolved HThis, h)
      else (Rejected (BadRequestError (''Unknown DSL keyword: '' @ k)), h))"

text \<open>
  The entry point. The first argument bounds the depth of the calls of \<^verbatim>\<open>standardize\<close>
  within one another, as the call stack does: beyond it the call throws. The third bounds
  the depth to which a leaf validator reads its argument.
\<close>

primrec hstandardize :: "nat \<Rightarrow> env \<Rightarrow> nat \<Rightarrow> heap \<Rightarrow> hv \<Rightarrow> hv outcome \<times> heap" where
  "hstandardize 0 E d h filters = (Thrown RangeError, h)"
| "hstandardize (Suc n) E d h filters =
     (let keywords = (if htruthy filters then hkeys h filters else []) in
      if length keywords = 0 then (let (x, h') = alloc h (CObj []) in (Resolved x, h'))
      else if length keywords > 1 then (Rejected (BadRequestError ''Invalid filter syntax''), h)
      else hdispatch E (hstandardize n E d) d (first_key keywords) h filters)"

subsection \<open>What a call leaves untouched\<close>

text \<open>Every cell below the bound \<open>L\<close> is in \<open>h'\<close> what it is in \<open>h\<close>, and no cell is lost.\<close>

definition frame :: "nat \<Rightarrow> heap \<Rightarrow> heap \<Rightarrow> bool" where
  "frame L h h' = (length h \<le> length h' \<and> (\<forall>a<L. a < length h \<longrightarrow> h' ! a = h ! a))"

text \<open>An object of the input that a validator may hand back: one key, of a passthrough keyword.\<close>

definition passLike :: "heap \<Rightarrow> nat \<Rightarrow> bool" where
  "passLike h a = (a < length h \<and>
     (\<exists>k x. h ! a = CObj [(k, x)] \<and> k \<in> set [''exists'', ''equals'', ''range'', ''regexp'']))"

fun contents :: "cell \<Rightarrow> hv list" where
  "contents (CObj kvs) = map snd kvs"
| "contents (CArr xs) = xs"

text \<open>
  The values a call may give as its result: primitives, objects of the kind above, and
  objects and arrays allocated since the bound \<open>L\<close> that hold such values again.
\<close>

coinductive okv :: "nat \<Rightarrow> heap \<Rightarrow> hv \<Rightarrow> bool" for L :: nat and h :: heap where
  "(\<And>a. x = HRef a \<Longrightarrow> a < length h \<and>
       (passLike h a \<or> (L \<le> a \<and> (\<forall>y\<in>set (contents (h ! a)). okv L h y))))
   \<Longrightarrow> okv L h x"

text \<open>What \<^verbatim>\<open>this.standardize\<close> is assumed to be, when a method takes it as an argument.\<close>

definition goodStd :: "(heap \<Rightarrow> hv \<Rightarrow> hv outcome \<times> heap) \<Rightarrow> bool" where
  "goodStd std = (\<forall>h v r h'. std h v = (r, h') \<longrightarrow>
      frame (length h) h h' \<and> (\<forall>x. r = Resolved x \<longrightarrow> okv (length h) h' x))"

lemma frame_refl [simp]: "frame L h h"
  by (simp add: frame_def)

lemma frame_trans: "frame L h h1 \<Longrightarrow> frame L h1 h2 \<Longrightarrow> frame L h h2"
  by (auto simp: frame_def)

lemma frame_weaken: "frame L h h' \<Longrightarrow> L' \<le> L \<Longrightarrow> frame L' h h'"
  by (auto simp: frame_def)

lemma frame_length: "frame L h h' \<Longrightarrow> length h \<le> length h'"
  by (simp add: frame_def)

lemma frame_alloc: "alloc h c = (x, h') \<Longrightarrow> frame L h h'"
  by (auto simp: alloc_def frame_def nth_append)

lemma length_setField [simp]: "length (setField h s k y) = length h"
  by (auto simp: setField_def split: hv.splits option.splits cell.splits)

lemma length_pushItem [simp]: "length (pushItem h s y) = length h"
  by (auto simp: pushItem_def split: hv.splits option.splits cell.splits)

lemma length_alloc: "alloc h c = (y, h') \<Longrightarrow> length h' = Suc (length h) \<and> y = HRef (length h)"
  by (auto simp: alloc_def)

lemma nth_setField:
  "a \<noteq> b \<Longrightarrow> setField h (HRef b) k y ! a = h ! a"
  by (auto simp: setField_def cellAt_def split: cell.splits)

lemma nth_pushItem:
  "a \<noteq> b \<Longrightarrow> pushItem h (HRef b) y ! a = h ! a"
  by (auto simp: pushItem_def cellAt_def split: cell.splits)

lemma setField_prim: "(\<And>a. s \<noteq> HRef a) \<Longrightarrow> setField h s k y = h"
  by (cases s) (auto simp: setField_def cellAt_def)

lemma pushItem_prim: "(\<And>a. s \<noteq> HRef a) \<Longrightarrow> pushItem h s y = h"
  by (cases s) (auto simp: pushItem_def cellAt_def)

lemma nth_alloc: "alloc h c = (y, h') \<Longrightarrow> a < length h \<Longrightarrow> h' ! a = h ! a"
  by (auto simp: alloc_def nth_append)

lemma nth_alloc_new: "alloc h c = (y, h') \<Longrightarrow> h' ! length h = c"
  by (auto simp: alloc_def)

lemma frame_setField: "L \<le> a \<Longrightarrow> frame L h (setField h (HRef a) k x)"
  by (simp add: frame_def nth_setField)

lemma frame_pushItem: "L \<le> a \<Longrightarrow> frame L h (pushItem h (HRef a) x)"
  by (simp add: frame_def nth_pushItem)

lemma okv_prim: "(\<And>a. x \<noteq> HRef a) \<Longrightarrow> okv L h x"
  by (rule okv.intros) auto

lemma okv_passLike: "passLike h a \<Longrightarrow> okv L h (HRef a)"
  by (rule okv.intros) (auto simp: passLike_def)

lemma okv_RefI:
  "a < length h \<Longrightarrow> L \<le> a \<Longrightarrow> (\<And>y. y \<in> set (contents (h ! a)) \<Longrightarrow> okv L h y)
     \<Longrightarrow> okv L h (HRef a)"
  by (rule okv.intros) auto

lemma okv_RefD:
  "okv L h (HRef a) \<Longrightarrow> a < length h \<and>
       (passLike h a \<or> (L \<le> a \<and> (\<forall>y\<in>set (contents (h ! a)). okv L h y)))"
  by (erule okv.cases) auto

lemma okv_change:
  assumes x: "okv L h x"
    and len: "length h \<le> length h'"
    and pass: "\<And>a. passLike h a \<Longrightarrow> passLike h' a"
    and fresh: "\<And>a y. okv L h (HRef a) \<Longrightarrow> \<not> passLike h a \<Longrightarrow>
        y \<in> set (contents (h' ! a)) \<Longrightarrow> okv L h y"
    and le: "L' \<le> L"
  shows "okv L' h' x"
  using x
proof (coinduction arbitrary: x)
  case (okv x)
  show ?case
  proof (rule exI [of _ x], rule conjI, rule refl, intro allI impI)
    fix a assume xa: "x = HRef a"
    with okv have o: "okv L h (HRef a)" by simp
    note d = okv_RefD [OF o]
    show "a < length h' \<and>
       (passLike h' a \<or>
        (L' \<le> a \<and> (\<forall>y\<in>set (contents (h' ! a)). (\<exists>x. y = x \<and> okv L h x) \<or> okv L' h' y)))"
    proof (cases "passLike h a")
      case True
      with d len pass show ?thesis by auto
    next
      case False
      with d have La: "L \<le> a" by auto
      have "\<forall>y\<in>set (contents (h' ! a)). (\<exists>x. y = x \<and> okv L h x) \<or> okv L' h' y"
        using fresh [OF o False] by blast
      with d len La le show ?thesis by auto
    qed
  qed
qed

lemma passLike_same: "a < length h \<Longrightarrow> a < length h' \<Longrightarrow> h' ! a = h ! a
    \<Longrightarrow> passLike h' a = passLike h a"
  by (simp add: passLike_def)

lemma okv_frame:
  assumes "okv L h x" "frame (length h) h h'" "L' \<le> L"
  shows "okv L' h' x"
proof (rule okv_change [OF assms(1) _ _ _ assms(3)])
  show "length h \<le> length h'" using assms(2) by (simp add: frame_def)
next
  fix a assume "passLike h a"
  then show "passLike h' a" using assms(2) by (auto simp: passLike_def frame_def)
next
  fix a y
  assume o: "okv L h (HRef a)" and np: "\<not> passLike h a" and y: "y \<in> set (contents (h' ! a))"
  from okv_RefD [OF o] np have a: "a < length h" "\<forall>y\<in>set (contents (h ! a)). okv L h y"
    by auto
  from a(1) assms(2) have "h' ! a = h ! a" by (simp add: frame_def)
  with a(2) y show "okv L h y" by simp
qed

lemma okv_weaken: "okv L h x \<Longrightarrow> L' \<le> L \<Longrightarrow> okv L' h x"
  by (rule okv_frame [where h = h]) simp_all

lemma okv_alloc: "alloc h c = (y, h') \<Longrightarrow> okv L h x \<Longrightarrow> okv L h' x"
  by (rule okv_frame [where h = h and L = L]) (simp_all add: frame_alloc)

lemma okv_alloc_new:
  assumes "alloc h c = (y, h')" "L \<le> length h" "\<And>z. z \<in> set (contents c) \<Longrightarrow> okv L h z"
  shows "okv L h' y"
proof -
  from assms(1) have y: "y = HRef (length h)" "length h' = Suc (length h)" "h' ! length h = c"
    by (auto simp: alloc_def)
  show ?thesis unfolding y(1)
  proof (rule okv_RefI)
    show "length h < length h'" by (simp add: y(2))
    show "L \<le> length h" by (rule assms(2))
    fix z assume "z \<in> set (contents (h' ! length h))"
    then have "okv L h z" using assms(3) y(3) by simp
    then show "okv L h' z" by (rule okv_alloc [OF assms(1)])
  qed
qed

lemma contents_setEntryH:
  "z \<in> snd ` set (setEntryH kvs k y) \<Longrightarrow> z = y \<or> z \<in> snd ` set kvs"
  by (induction kvs) (fastforce split: if_splits)+

lemma map_of_setEntryH [simp]:
  "map_of (setEntryH kvs k v) k' = (if k' = k then Some v else map_of kvs k')"
  by (induction kvs) auto

lemma okv_setField:
  assumes x: "okv L h x" and y: "okv L h y" and s: "\<And>a. s = HRef a \<Longrightarrow> \<not> passLike h a"
  shows "okv L (setField h s k y) x"
proof (cases s)
  case (HRef b)
  let ?h = "setField h (HRef b) k y"
  have "okv L ?h x"
  proof (rule okv_change [OF x])
    show "length h \<le> length ?h" by simp
    show "L \<le> L" by simp
    show "passLike ?h a" if "passLike h a" for a
    proof -
      from that s HRef have "a \<noteq> b" by auto
      with that show ?thesis by (simp add: passLike_def nth_setField)
    qed
    fix a z
    assume o: "okv L h (HRef a)" and np: "\<not> passLike h a" and z: "z \<in> set (contents (?h ! a))"
    from okv_RefD [OF o] np have a: "a < length h" "\<forall>y\<in>set (contents (h ! a)). okv L h y"
      by auto
    show "okv L h z"
    proof (cases "a = b")
      case False
      with z a show ?thesis by (simp add: nth_setField)
    next
      case True
      show ?thesis
      proof (cases "h ! b")
        case (CObj kvs)
        with a(1) True have "?h ! a = CObj (setEntryH kvs k y)"
          by (simp add: setField_def cellAt_def)
        with z contents_setEntryH [of z kvs k y] have "z = y \<or> z \<in> set (map snd kvs)" by auto
        with y a(2) True CObj show ?thesis by auto
      next
        case (CArr xs)
        with a(1) True have "?h = h" by (simp add: setField_def cellAt_def)
        with z a(2) show ?thesis by simp
      qed
    qed
  qed
  with HRef show ?thesis by simp
qed (simp_all add: setField_prim x)

lemma okv_pushItem:
  assumes x: "okv L h x" and y: "okv L h y"
  shows "okv L (pushItem h s y) x"
proof (cases s)
  case (HRef b)
  let ?h = "pushItem h (HRef b) y"
  have "okv L ?h x"
  proof (rule okv_change [OF x])
    show "length h \<le> length ?h" by simp
    show "L \<le> L" by simp
    show "passLike ?h a" if "passLike h a" for a
    proof (cases "a = b")
      case False
      with that show ?thesis by (simp add: passLike_def nth_pushItem)
    next
      case True
      with that have "?h = h" by (auto simp: pushItem_def cellAt_def passLike_def)
      with that show ?thesis by simp
    qed
    fix a z
    assume o: "okv L h (HRef a)" and np: "\<not> passLike h a" and z: "z \<in> set (contents (?h ! a))"
    from okv_RefD [OF o] np have a: "a < length h" "\<forall>y\<in>set (contents (h ! a)). okv L h y"
      by auto
    show "okv L h z"
    proof (cases "a = b")
      case False
      with z a show ?thesis by (simp add: nth_pushItem)
    next
      case True
      show ?thesis
      proof (cases "h ! b")
        case (CArr xs)
        with a(1) True have "?h ! a = CArr (xs @ [y])"
          by (simp add: pushItem_def cellAt_def)
        with z y a(2) True CArr show ?thesis by auto
      next
        case (CObj kvs)
        with a(1) True have "?h = h" by (simp add: pushItem_def cellAt_def)
        with z a(2) show ?thesis by simp
      qed
    qed
  qed
  with HRef show ?thesis by simp
qed (simp_all add: pushItem_prim x)

lemma notPass_setField:
  assumes "\<not> passLike h a" "k \<notin> set [''exists'', ''equals'', ''range'', ''regexp'']"
  shows "\<not> passLike (setField h s k y) a"
proof (cases "s = HRef a \<and> a < length h \<and> (\<exists>kvs. h ! a = CObj kvs)")
  case True
  then obtain kvs where kvs: "h ! a = CObj kvs" by blast
  with True have c: "setField h s k y ! a = CObj (setEntryH kvs k y)"
    by (simp add: setField_def cellAt_def)
  show ?thesis
  proof
    assume "passLike (setField h s k y) a"
    then obtain k' x where e: "setEntryH kvs k y = [(k', x)]"
      "k' \<in> set [''exists'', ''equals'', ''range'', ''regexp'']"
      unfolding passLike_def c by auto
    have "map_of (setEntryH kvs k y) k = Some y" by simp
    then have "k' = k" unfolding e(1) by (simp split: if_splits)
    with e(2) assms(2) show False by simp
  qed
next
  case False
  show ?thesis
  proof (cases s)
    case (HRef b)
    show ?thesis
    proof (cases "a = b")
      case True
      with False HRef have "setField h s k y = h"
        by (auto simp: setField_def cellAt_def split: cell.splits)
      with assms(1) show ?thesis by simp
    next
      case ne: False
      with assms(1) HRef show ?thesis by (simp add: passLike_def nth_setField)
    qed
  qed (simp_all add: setField_prim assms(1))
qed

lemma notPass_pushItem:
  assumes "\<not> passLike h a"
  shows "\<not> passLike (pushItem h s y) a"
proof (cases s)
  case (HRef b)
  show ?thesis
  proof (cases "a = b")
    case False
    with assms HRef show ?thesis by (simp add: passLike_def nth_pushItem)
  next
    case True
    with HRef assms show ?thesis
      by (auto simp: passLike_def pushItem_def cellAt_def split: cell.splits)
  qed
qed (simp_all add: pushItem_prim assms)

lemma notPass_alloc:
  "alloc h c = (y, h') \<Longrightarrow> a < length h \<Longrightarrow> \<not> passLike h a \<Longrightarrow> \<not> passLike h' a"
  by (auto simp: passLike_def alloc_def nth_append)

lemma notPass_frame:
  "frame (length h) h h' \<Longrightarrow> a < length h \<Longrightarrow> \<not> passLike h a \<Longrightarrow> \<not> passLike h' a"
  by (auto simp: passLike_def frame_def)

text \<open>Reading from a value of that kind.\<close>

lemma okv_helems:
  assumes x: "okv L h x" and e: "e \<in> set (helems h x)"
  shows "okv L h e"
proof -
  from e obtain b where b0: "x = HRef b" "b < length h"
    by (cases x) (auto simp: helems_def cellAt_def split: if_splits)
  with e obtain xs where "h ! b = CArr xs" "e \<in> set xs"
    by (cases "h ! b") (auto simp: helems_def cellAt_def)
  with b0 have b: "x = HRef b" "b < length h" "h ! b = CArr xs" "e \<in> set xs"
    by simp_all
  then have "\<not> passLike h b" by (simp add: passLike_def)
  with okv_RefD [of L h b] x b show ?thesis by auto
qed

lemma okv_hprop:
  assumes "okv L h x" "\<And>a. x = HRef a \<Longrightarrow> \<not> passLike h a"
  shows "okv L h (hprop h x k)"
proof (cases "hprop h x k = HUndefined")
  case True
  then show ?thesis by (simp add: okv_prim)
next
  case False
  then obtain b where b0: "x = HRef b" "b < length h"
    by (cases x) (auto simp: hprop_def cellAt_def split: if_splits)
  with False obtain kvs where "h ! b = CObj kvs" "map_of kvs k = Some (hprop h x k)"
    by (cases "h ! b") (auto simp: hprop_def cellAt_def split: option.splits)
  with b0 have b: "x = HRef b" "b < length h" "h ! b = CObj kvs"
    "map_of kvs k = Some (hprop h x k)"
    by simp_all
  then have "hprop h x k \<in> set (contents (h ! b))"
    by (auto dest: map_of_SomeD intro: rev_image_eqI)
  with okv_RefD [of L h b] assms b show ?thesis by auto
qed

lemma hisArray_and_notPass: "hisArray h (hprop h (HRef a) k) \<Longrightarrow> k \<notin> set [''exists'', ''equals'', ''range'', ''regexp''] \<Longrightarrow> \<not> passLike h a"
  by (auto simp: passLike_def hprop_def cellAt_def hisArray_def)

subsection \<open>The reducer and the array of a combinator\<close>

lemma okv_hconcat:
  assumes "okv L h xs" "okv L h x" "e \<in> set (hconcat h xs x)"
  shows "okv L h e"
  using assms okv_helems [of L h xs e] okv_helems [of L h x e]
  by (auto simp: hconcat_def split: if_splits)

lemma frame_pushItem_okv: "okv L h t \<Longrightarrow> frame L h (pushItem h t x)"
proof (cases t)
  case (HRef b)
  assume t: "okv L h t"
  show ?thesis
  proof (cases "passLike h b")
    case True
    then have "pushItem h t x = h"
      using HRef by (auto simp: passLike_def pushItem_def cellAt_def)
    then show ?thesis by simp
  next
    case False
    with okv_RefD [of L h b] t HRef have "L \<le> b" by auto
    with HRef show ?thesis by (simp add: frame_pushItem)
  qed
qed (simp_all add: pushItem_prim)

lemma hfirstKey_notPass:
  assumes "hfirstKey h (HRef a) = Some operand"
    "operand \<notin> set [''exists'', ''equals'', ''range'', ''regexp'']"
  shows "\<not> passLike h a"
  using assms by (auto simp: passLike_def hfirstKey_def hkeys_def cellAt_def)

lemma hreducer_ok:
  assumes res: "okv L h (HRef r)" "\<not> passLike h r"
    and sub: "okv L h sub"
    and op: "operand \<notin> set [''exists'', ''equals'', ''range'', ''regexp'']"
    and run: "hreducer h (HRef r) operand sub = (eo, h')"
  shows "frame L h h' \<and> okv L h' (HRef r) \<and> \<not> passLike h' r \<and> (\<forall>x. okv L h x \<longrightarrow> okv L h' x)"
proof -
  from okv_RefD [OF res(1)] res(2) have r: "r < length h" "L \<le> r" by auto
  have leaf: "''_isLeaf'' \<notin> set [''exists'', ''equals'', ''range'', ''regexp'']" by simp
  consider (null) "hnullish sub"
    | (splice) "\<not> hnullish sub" "hfirstKey h sub = Some operand"
    | (push) "\<not> hnullish sub" "hfirstKey h sub \<noteq> Some operand" by blast
  then show ?thesis
  proof cases
    case null
    with run have "h' = h" by (simp add: hreducer_def)
    with res show ?thesis by simp
  next
    case splice
    let ?y = "hbitAnd (hprop h (HRef r) ''_isLeaf'') (hprop h sub ''_isLeaf'')"
    let ?h1 = "setField h (HRef r) ''_isLeaf'' ?y"
    let ?es = "hconcat ?h1 (hprop ?h1 (HRef r) operand) (hprop ?h1 sub operand)"
    obtain newArr h2 where a: "alloc ?h1 (CArr ?es) = (newArr, h2)" by (cases "alloc ?h1 (CArr ?es)")
    let ?h3 = "setField h2 (HRef r) operand newArr"
    from run splice a have h': "h' = ?h3" by (simp add: hreducer_def Let_def)
    have y: "okv L h ?y" by (rule okv_prim) (simp add: hbitAnd_def)
    have k1: "okv L h x \<Longrightarrow> okv L ?h1 x" for x
      by (rule okv_setField [OF _ y]) (use res(2) in auto)
    have n1: "\<not> passLike ?h1 r" by (rule notPass_setField [OF res(2) leaf])
    have f1: "frame L h ?h1" by (rule frame_setField [OF r(2)])
    have subn: "\<not> passLike ?h1 a" if "sub = HRef a" for a
      using hfirstKey_notPass [of h a operand] splice(2) op that
      by (intro notPass_setField [OF _ leaf]) simp
    have es: "okv L ?h1 e" if "e \<in> set ?es" for e
    proof (rule okv_hconcat [OF _ _ that])
      show "okv L ?h1 (hprop ?h1 (HRef r) operand)"
        by (rule okv_hprop [OF k1 [OF res(1)]]) (use n1 in simp)
      show "okv L ?h1 (hprop ?h1 sub operand)"
        by (rule okv_hprop [OF k1 [OF sub]]) (use subn in simp)
    qed
    have L1: "L \<le> length ?h1" using r by simp
    have new: "okv L h2 newArr"
      by (rule okv_alloc_new [OF a L1]) (use es in simp)
    have k2: "okv L ?h1 x \<Longrightarrow> okv L h2 x" for x by (rule okv_alloc [OF a])
    have n2: "\<not> passLike h2 r" by (rule notPass_alloc [OF a _ n1]) (use r in simp)
    have f2: "frame L ?h1 h2" by (rule frame_alloc [OF a])
    have k3: "okv L h2 x \<Longrightarrow> okv L ?h3 x" for x
      by (rule okv_setField [OF _ new]) (use n2 in auto)
    have n3: "\<not> passLike ?h3 r" by (rule notPass_setField [OF n2 op])
    have f3: "frame L h2 ?h3" by (rule frame_setField [OF r(2)])
    from frame_trans [OF frame_trans [OF f1 f2] f3] k1 k2 k3 n3 res(1) show ?thesis
      unfolding h' by blast
  next
    case push
    let ?h1 = "pushItem h (hprop h (HRef r) operand) sub"
    let ?h2 = "if hfirstKey h sub \<in> {Some ''and'', Some ''or''}
               then setField ?h1 (HRef r) ''_isLeaf'' (HBool False) else ?h1"
    from run push have h': "h' = ?h2" by (simp add: hreducer_def Let_def)
    have t: "okv L h (hprop h (HRef r) operand)"
      by (rule okv_hprop [OF res(1)]) (use res(2) in simp)
    have k1: "okv L h x \<Longrightarrow> okv L ?h1 x" for x by (rule okv_pushItem [OF _ sub])
    have n1: "\<not> passLike ?h1 r" by (rule notPass_pushItem [OF res(2)])
    have f1: "frame L h ?h1" by (rule frame_pushItem_okv [OF t])
    have y: "okv L ?h1 (HBool False)" by (rule okv_prim) simp
    have k2: "okv L ?h1 x \<Longrightarrow> okv L ?h2 x" for x
      using okv_setField [OF _ y, of x "HRef r" "''_isLeaf''"] n1 by auto
    have n2: "\<not> passLike ?h2 r" using notPass_setField [OF n1 leaf] n1 by auto
    have f2: "frame L ?h1 ?h2" using frame_setField [OF r(2), of ?h1] by auto
    from frame_trans [OF f1 f2] k1 k2 n2 res(1) show ?thesis
      unfolding h' by blast
  qed
qed

lemma hreduce_ok:
  assumes op: "operand \<notin> set [''exists'', ''equals'', ''range'', ''regexp'']"
  shows "hreduce h (HRef r) operand rs = (eo, h') \<Longrightarrow> okv L h (HRef r) \<Longrightarrow> \<not> passLike h r
     \<Longrightarrow> (\<And>x. Resolved x \<in> set rs \<Longrightarrow> okv L h x)
     \<Longrightarrow> frame L h h' \<and> okv L h' (HRef r) \<and> \<not> passLike h' r"
proof (induction rs arbitrary: h)
  case Nil
  then show ?case by simp
next
  case (Cons a rs)
  show ?case
  proof (cases a)
    case (Resolved sub)
    obtain eo1 h1 where s: "hreducer h (HRef r) operand sub = (eo1, h1)"
      by (cases "hreducer h (HRef r) operand sub")
    have sub: "okv L h sub" using Cons.prems(4) Resolved by simp
    note st = hreducer_ok [OF Cons.prems(2,3) sub op s]
    show ?thesis
    proof (cases eo1)
      case (Some e)
      with Cons.prems(1) Resolved s have "h' = h1" by simp
      with st show ?thesis by simp
    next
      case None
      with Cons.prems(1) Resolved s have run: "hreduce h1 (HRef r) operand rs = (eo, h')" by simp
      have "frame L h1 h' \<and> okv L h' (HRef r) \<and> \<not> passLike h' r"
      proof (rule Cons.IH [OF run])
        show "okv L h1 (HRef r)" "\<not> passLike h1 r" using st by simp_all
        fix x assume "Resolved x \<in> set rs"
        then have "okv L h x" using Cons.prems(4) by simp
        with st show "okv L h1 x" by simp
      qed
      with st frame_trans show ?thesis by blast
    qed
  next
    case (Rejected e)
    with Cons.prems show ?thesis by simp
  next
    case (Thrown e)
    with Cons.prems show ?thesis by simp
  qed
qed

lemma hmapStd_ok:
  assumes good: "goodStd std"
  shows "hmapStd std h cs = (rs, h')
     \<Longrightarrow> frame (length h) h h' \<and> (\<forall>x. Resolved x \<in> set rs \<longrightarrow> okv (length h) h' x)"
proof (induction cs arbitrary: h rs h')
  case Nil
  then show ?case by simp
next
  case (Cons c cs)
  obtain r1 h1 where c: "std h c = (r1, h1)" by (cases "std h c")
  from good c have g: "frame (length h) h h1" "\<And>x. r1 = Resolved x \<Longrightarrow> okv (length h) h1 x"
    unfolding goodStd_def by blast+
  show ?case
  proof (cases "\<exists>e. r1 = Thrown e")
    case True
    with Cons.prems c have "h' = h1" "rs = [r1]" by auto
    with g True show ?thesis by auto
  next
    case False
    obtain rs2 h2 where m: "hmapStd std h1 cs = (rs2, h2)" by (cases "hmapStd std h1 cs")
    from False Cons.prems c m have e: "h' = h2" "rs = r1 # rs2"
      by (cases r1; simp)+
    note ih = Cons.IH [OF m]
    have le: "length h \<le> length h1" using g(1) by (rule frame_length)
    have f: "frame (length h) h h2"
      using frame_trans [OF g(1) frame_weaken [OF conjunct1 [OF ih] le]] .
    have "okv (length h) h2 x" if "Resolved x \<in> set rs" for x
    proof (cases "r1 = Resolved x")
      case True
      from okv_frame [OF g(2) [OF True] conjunct1 [OF ih]] show ?thesis by simp
    next
      case False
      with that e have "Resolved x \<in> set rs2" by simp
      with ih have "okv (length h1) h2 x" by simp
      then show ?thesis using le by (rule okv_weaken)
    qed
    with f e show ?thesis by simp
  qed
qed

lemma hstandardizeFilterArray_ok:
  assumes good: "goodStd std"
    and op: "operand \<notin> set [''exists'', ''equals'', ''range'', ''regexp'']"
    and run: "hstandardizeFilterArray std h flt operand = (r, h')"
  shows "frame (length h) h h' \<and> (\<forall>x. r = Resolved x \<longrightarrow> okv (length h) h' x)"
proof (cases "\<not> hnullish (hprop h flt operand)
    \<and> hbadItem h (helems h (hprop h flt operand)) = Resolved False")
  case False
  with run have "h' = h \<and> (\<forall>x. r \<noteq> Resolved x)"
    by (auto simp: hstandardizeFilterArray_def split: outcome.splits bool.splits if_splits)
  then show ?thesis by simp
next
  case True
  let ?L = "length h"
  obtain arr h1 where a1: "alloc h (CArr []) = (arr, h1)" by (cases "alloc h (CArr [])")
  let ?c = "CObj [(operand, arr), (''_isLeaf'', HBool True)]"
  obtain res h2 where a2: "alloc h1 ?c = (res, h2)" by (cases "alloc h1 ?c")
  obtain subs h3 where m: "hmapStd std h2 (helems h (hprop h flt operand)) = (subs, h3)"
    by (cases "hmapStd std h2 (helems h (hprop h flt operand))")
  from length_alloc [OF a1] length_alloc [OF a2]
  have len: "length h1 = Suc ?L" "length h2 = Suc (Suc ?L)" "res = HRef (Suc ?L)" by simp_all
  have arr: "okv ?L h1 arr" by (rule okv_alloc_new [OF a1]) simp_all
  have res2: "okv ?L h2 (HRef (Suc ?L))"
    using okv_alloc_new [OF a2, of ?L] arr len by (auto intro: okv_prim)
  have np2: "\<not> passLike h2 (Suc ?L)"
    using nth_alloc_new [OF a2] len by (simp add: passLike_def)
  note mp = hmapStd_ok [OF good m]
  have le: "?L \<le> length h2" by (simp add: len)
  have res3: "okv ?L h3 (HRef (Suc ?L))" by (rule okv_frame [OF res2 conjunct1 [OF mp]]) simp
  have np3: "\<not> passLike h3 (Suc ?L)"
    by (rule notPass_frame [OF conjunct1 [OF mp] _ np2]) (simp add: len)
  have subs: "okv ?L h3 x" if "Resolved x \<in> set subs" for x
    using mp that okv_weaken [OF _ le] by blast
  have f3: "frame ?L h h3"
    using frame_trans [OF frame_trans [OF frame_alloc [OF a1] frame_alloc [OF a2]]
        frame_weaken [OF conjunct1 [OF mp] le]] .
  show ?thesis
  proof (cases "firstThrown subs")
    case (Some e)
    with run True a1 a2 m have "h' = h3" "r = Thrown e"
      by (simp_all add: hstandardizeFilterArray_def len)
    with f3 show ?thesis by simp
  next
    case None
    obtain eo h4 where rd: "hreduce h3 (HRef (Suc ?L)) operand subs = (eo, h4)"
      by (cases "hreduce h3 (HRef (Suc ?L)) operand subs")
    note ro = hreduce_ok [OF op rd res3 np3 subs]
    then have f4: "frame ?L h h4" using frame_trans [OF f3] by blast
    show ?thesis
    proof (cases eo)
      case (Some e)
      with run True a1 a2 m None rd have "h' = h4" "r = Rejected e"
        by (simp_all add: hstandardizeFilterArray_def len)
      with f4 show ?thesis by simp
    next
      case eoNone: None
      let ?items = "helems h4 (hprop h4 (HRef (Suc ?L)) operand)"
      from run True a1 a2 m None rd eoNone
      have e: "h' = h4" "r = (if length ?items = 1 then Resolved (?items ! 0)
                              else Resolved (HRef (Suc ?L)))"
        by (auto simp: hstandardizeFilterArray_def len Let_def split: if_splits)
      have p: "okv ?L h4 (hprop h4 (HRef (Suc ?L)) operand)"
        by (rule okv_hprop) (use ro in simp_all)
      have "okv ?L h4 (?items ! 0)" if "length ?items = 1"
        by (rule okv_helems [OF p]) (use that in \<open>simp add: nth_mem\<close>)
      with ro f4 e show ?thesis by auto
    qed
  qed
qed

subsection \<open>\<^verbatim>\<open>and\<close>, \<^verbatim>\<open>or\<close>, \<^verbatim>\<open>not\<close> and \<^verbatim>\<open>bool\<close>\<close>

lemma caught_ok:
  assumes "caught p = (r, h')"
  shows "snd p = h' \<and> (\<forall>x. r = Resolved x \<longrightarrow> fst p = Resolved x)"
  using assms by (cases p rule: caught.cases) auto

lemma hand_ok:
  assumes good: "goodStd std" and run: "hand std h flt keyword = (r, h')"
  shows "frame (length h) h h' \<and> (\<forall>x. r = Resolved x \<longrightarrow> okv (length h) h' x)"
proof (cases "hmustBeNonEmptyArray h flt ''and'' keyword")
  case (Resolved u)
  obtain r1 h1 where s: "hstandardizeFilterArray std h flt ''and'' = (r1, h1)"
    by (cases "hstandardizeFilterArray std h flt ''and''")
  from run Resolved s have "caught (r1, h1) = (r, h')" by (simp add: hand_def)
  from caught_ok [OF this] hstandardizeFilterArray_ok [OF good _ s] show ?thesis by simp
next
  case (Rejected e)
  with run show ?thesis by (auto simp: hand_def)
next
  case (Thrown e)
  with run show ?thesis by (auto simp: hand_def)
qed

lemma hor_ok:
  assumes good: "goodStd std" and run: "hor std h flt keyword = (r, h')"
  shows "frame (length h) h h' \<and> (\<forall>x. r = Resolved x \<longrightarrow> okv (length h) h' x)"
proof (cases "hmustBeNonEmptyArray h flt ''or'' keyword")
  case (Resolved u)
  obtain r1 h1 where s: "hstandardizeFilterArray std h flt ''or'' = (r1, h1)"
    by (cases "hstandardizeFilterArray std h flt ''or''")
  from run Resolved s have "caught (r1, h1) = (r, h')" by (simp add: hor_def)
  from caught_ok [OF this] hstandardizeFilterArray_ok [OF good _ s] show ?thesis by simp
next
  case (Rejected e)
  with run show ?thesis by (auto simp: hor_def)
next
  case (Thrown e)
  with run show ?thesis by (auto simp: hor_def)
qed

lemma hnot_ok:
  assumes good: "goodStd std" and run: "hnot std h flt = (r, h')"
  shows "frame (length h) h h' \<and> (\<forall>x. r = Resolved x \<longrightarrow> okv (length h) h' x)"
proof -
  let ?checks = "andThen (hmustBeNonEmptyObject h (hprop h flt ''not'') ''not'') (\<lambda>flds.
           andThen (onlyOneFieldAttribute flds ''not'') (\<lambda>flds.
           let kwd = first_key flds in
           andThen (if kwd = ''and'' \<or> kwd = ''or''
                    then hmustBeNonEmptyArray h (hprop h flt ''not'') ''not'' kwd
                    else andThen (hmustBeNonEmptyObject h (hprop h (hprop h flt ''not'') kwd)
                           (''not.'' @ kwd)) (\<lambda>_. Resolved ())) (\<lambda>_. Resolved ())))"
  show ?thesis
  proof (cases ?checks)
    case (Resolved u)
    obtain r1 h1 where s: "std h (hprop h flt ''not'') = (r1, h1)"
      by (cases "std h (hprop h flt ''not'')")
    from good s have g: "frame (length h) h h1" "\<And>x. r1 = Resolved x \<Longrightarrow> okv (length h) h1 x"
      unfolding goodStd_def by blast+
    show ?thesis
    proof (cases r1)
      case res: (Resolved result)
      obtain x h2 where a: "alloc h1 (CObj [(''not'', result)]) = (x, h2)"
        by (cases "alloc h1 (CObj [(''not'', result)])")
      from run Resolved s res a have e: "r = Resolved x" "h' = h2"
        unfolding hnot_def by simp_all
      have "okv (length h) h2 x"
        by (rule okv_alloc_new [OF a frame_length [OF g(1)]]) (use g(2) res in simp)
      with frame_trans [OF g(1) frame_alloc [OF a]] e show ?thesis by simp
    next
      case (Rejected e)
      with run Resolved s g show ?thesis unfolding hnot_def by auto
    next
      case (Thrown e)
      with run Resolved s g show ?thesis unfolding hnot_def by auto
    qed
  next
    case (Rejected e)
    with run show ?thesis unfolding hnot_def by auto
  next
    case (Thrown e)
    with run show ?thesis unfolding hnot_def by auto
  qed
qed

lemma hboolAppend_ok:
  assumes s: "okv L h s" and x: "okv L h x" and L: "L \<le> length h"
    and run: "hboolAppend h s x = (eo, h')"
  shows "frame L h h' \<and> (\<forall>z. okv L h z \<longrightarrow> okv L h' z)"
proof (cases "hisArray h (hprop h s ''and'')")
  case False
  with run show ?thesis by (simp add: hboolAppend_def)
next
  case True
  let ?es = "hconcat h (hprop h s ''and'') x"
  obtain newArr h1 where a: "alloc h (CArr ?es) = (newArr, h1)" by (cases "alloc h (CArr ?es)")
  let ?h2 = "setField h1 s ''and'' newArr"
  let ?h3 = "setField ?h2 s ''_isLeaf'' (HBool False)"
  from run True a have h': "h' = ?h3" by (simp add: hboolAppend_def Let_def)
  from True obtain b where b: "s = HRef b"
    by (cases s) (auto simp: hprop_def cellAt_def hisArray_def)
  have np: "\<not> passLike h b"
    using hisArray_and_notPass [of h b "''and''"] True b by simp
  with okv_RefD [of L h b] s b have fr: "L \<le> b" "b < length h" by auto
  have es: "okv L h e" if "e \<in> set ?es" for e
  proof (rule okv_hconcat [OF _ x that])
    show "okv L h (hprop h s ''and'')" by (rule okv_hprop [OF s]) (use np b in simp)
  qed
  have new: "okv L h1 newArr" by (rule okv_alloc_new [OF a L]) (use es in simp)
  have k1: "okv L h z \<Longrightarrow> okv L h1 z" for z by (rule okv_alloc [OF a])
  have n1: "\<not> passLike h1 b" by (rule notPass_alloc [OF a fr(2) np])
  have k2: "okv L h1 z \<Longrightarrow> okv L ?h2 z" for z
    by (rule okv_setField [OF _ new]) (use n1 b in auto)
  have n2: "\<not> passLike ?h2 b" by (rule notPass_setField [OF n1]) simp
  have y: "okv L ?h2 (HBool False)" by (rule okv_prim) simp
  have k3: "okv L ?h2 z \<Longrightarrow> okv L ?h3 z" for z
    by (rule okv_setField [OF _ y]) (use n2 b in auto)
  have f: "frame L h ?h3"
    using frame_trans [OF frame_trans [OF frame_alloc [OF a] frame_setField [OF fr(1)]]
        frame_setField [OF fr(1)]] unfolding b .
  from f k1 k2 k3 show ?thesis unfolding h' by blast
qed

lemma hnegated_ok:
  assumes s: "okv L h s" and f: "okv L h f" and L: "L \<le> length h"
    and run: "hnegated h s f = (eo, h')"
  shows "frame L h h' \<and> (\<forall>z. okv L h z \<longrightarrow> okv L h' z)"
proof (cases "htruthy f")
  case False
  with run show ?thesis by (simp add: hnegated_def)
next
  case True
  obtain nf h1 where a: "alloc h (CObj [(''not'', f)]) = (nf, h1)"
    by (cases "alloc h (CObj [(''not'', f)])")
  from run True a have r: "hboolAppend h1 s nf = (eo, h')" by (simp add: hnegated_def)
  have nf: "okv L h1 nf" by (rule okv_alloc_new [OF a L]) (use f in simp)
  have L1: "L \<le> length h1" using length_alloc [OF a] L by simp
  note st = hboolAppend_ok [OF okv_alloc [OF a s] nf L1 r]
  from st frame_trans [OF frame_alloc [OF a]] okv_alloc [OF a] show ?thesis by blast
qed

lemma hpart_ok:
  assumes good: "goodStd std" and run: "hpart operand std h b attribute = (r, h')"
  shows "frame (length h) h h' \<and> (\<forall>x. r = Resolved x \<longrightarrow> okv (length h) h' x)"
proof (cases "htruthy (hprop h b attribute)")
  case False
  with run show ?thesis by (auto simp: hpart_def intro: okv_prim)
next
  case True
  let ?c = "CObj [(operand, hprop h b attribute)]"
  obtain w h1 where a: "alloc h ?c = (w, h1)" by (cases "alloc h ?c")
  let ?p = "if operand = ''and'' then hand std h1 w ''and'' else hor std h1 w ''or''"
  obtain r1 h2 where p: "?p = (r1, h2)" by (cases ?p)
  from run True a p have "caught (r1, h2) = (r, h')" by (simp add: hpart_def)
  from caught_ok [OF this] have e: "h' = h2" "\<And>x. r = Resolved x \<Longrightarrow> r1 = Resolved x"
    by simp_all
  from p hand_ok [OF good, of h1 w "''and''" r1 h2] hor_ok [OF good, of h1 w "''or''" r1 h2]
  have g: "frame (length h1) h1 h2" "\<And>x. r1 = Resolved x \<Longrightarrow> okv (length h1) h2 x"
    by (auto split: if_splits)
  have le: "length h \<le> length h1" using length_alloc [OF a] by simp
  have "frame (length h) h h2"
    using frame_trans [OF frame_alloc [OF a] frame_weaken [OF g(1) le]] .
  moreover have "okv (length h) h2 x" if "r = Resolved x" for x
    using okv_weaken [OF g(2) [OF e(2) [OF that]] le] .
  ultimately show ?thesis using e(1) by simp
qed

lemma hboolFinish_ok:
  assumes "okv L h s" "hboolFinish h s = Resolved x"
  shows "okv L h x"
proof (cases "s \<noteq> HThis \<and> hisArray h (hprop h s ''and'')
    \<and> length (helems h (hprop h s ''and'')) = 1")
  case True
  then obtain b where b: "s = HRef b"
    by (cases s) (auto simp: hprop_def cellAt_def hisArray_def)
  have np: "\<not> passLike h b"
    using hisArray_and_notPass [of h b "''and''"] True b by simp
  have p: "okv L h (hprop h s ''and'')" by (rule okv_hprop [OF assms(1)]) (use np b in simp)
  from True assms(2) have "x = helems h (hprop h s ''and'') ! 0" by (simp add: hboolFinish_def)
  with True okv_helems [OF p, of x] show ?thesis by simp
next
  case False
  with assms(2) have "x = s \<or> (\<forall>a. x \<noteq> HRef a)"
    by (cases "hprop h s ''and''") (auto simp: hboolFinish_def split: if_splits)
  with assms(1) show ?thesis by (auto intro: okv_prim)
qed

lemma hboolShouldNot_ok:
  assumes s: "okv L h s" and f: "okv L h f" and L: "L \<le> length h"
    and run: "hboolShouldNot h s f = (r, h')"
  shows "frame L h h' \<and> (\<forall>x. r = Resolved x \<longrightarrow> okv L h' x)"
proof -
  obtain eo h1 where n: "hnegated h s f = (eo, h1)" by (cases "hnegated h s f")
  note st = hnegated_ok [OF s f L n]
  show ?thesis
  proof (cases eo)
    case (Some e)
    with run n st show ?thesis by (auto simp: hboolShouldNot_def)
  next
    case None
    with run n have e: "h' = h1" "r = hboolFinish h1 s" by (auto simp: hboolShouldNot_def)
    from st s have "okv L h1 s" by simp
    with hboolFinish_ok [of L h1 s] e st show ?thesis by auto
  qed
qed

lemma hboolShould_ok:
  assumes good: "goodStd std" and s: "okv L h s" and f: "okv L h f" and L: "L \<le> length h"
    and run: "hboolShould std h b s f = (r, h')"
  shows "frame L h h' \<and> (\<forall>x. r = Resolved x \<longrightarrow> okv L h' x)"
proof -
  let ?a = "if htruthy f then hboolAppend h s f else (None, h)"
  obtain eo h1 where n: "?a = (eo, h1)" by (cases ?a)
  have st: "frame L h h1 \<and> (\<forall>z. okv L h z \<longrightarrow> okv L h1 z)"
    using n hboolAppend_ok [OF s f L, of eo h1] by (auto split: if_splits)
  show ?thesis
  proof (cases eo)
    case (Some e)
    with run n st show ?thesis by (auto simp: hboolShould_def)
  next
    case None
    obtain r2 h2 where p: "hpart ''and'' std h1 b ''should_not'' = (r2, h2)"
      by (cases "hpart ''and'' std h1 b ''should_not''")
    note pk = hpart_ok [OF good p]
    have L1: "L \<le> length h1" using st L frame_length by fastforce
    have f2: "frame L h h2"
      using frame_trans [OF conjunct1 [OF st] frame_weaken [OF conjunct1 [OF pk] L1]] .
    show ?thesis
    proof (cases r2)
      case (Resolved f')
      with run n None p have r: "hboolShouldNot h2 s f' = (r, h')"
        by (simp add: hboolShould_def)
      have s2: "okv L h2 s" using okv_frame [OF _ conjunct1 [OF pk], of L s L] st s by simp
      have f': "okv L h2 f'" using pk Resolved okv_weaken [OF _ L1] by blast
      have L2: "L \<le> length h2" using L1 frame_length [OF conjunct1 [OF pk]] by simp
      from hboolShouldNot_ok [OF s2 f' L2 r] frame_trans [OF f2] show ?thesis by blast
    next
      case (Rejected e)
      with run n None p f2 show ?thesis by (auto simp: hboolShould_def)
    next
      case (Thrown e)
      with run n None p f2 show ?thesis by (auto simp: hboolShould_def)
    qed
  qed
qed

lemma hboolMustNot_ok:
  assumes good: "goodStd std" and s: "okv L h s" and f: "okv L h f" and L: "L \<le> length h"
    and run: "hboolMustNot std h b s f = (r, h')"
  shows "frame L h h' \<and> (\<forall>x. r = Resolved x \<longrightarrow> okv L h' x)"
proof -
  obtain eo h1 where n: "hnegated h s f = (eo, h1)" by (cases "hnegated h s f")
  note st = hnegated_ok [OF s f L n]
  show ?thesis
  proof (cases eo)
    case (Some e)
    with run n st show ?thesis by (auto simp: hboolMustNot_def)
  next
    case None
    obtain r2 h2 where p: "hpart ''or'' std h1 b ''should'' = (r2, h2)"
      by (cases "hpart ''or'' std h1 b ''should''")
    note pk = hpart_ok [OF good p]
    have L1: "L \<le> length h1" using st L frame_length by fastforce
    have f2: "frame L h h2"
      using frame_trans [OF conjunct1 [OF st] frame_weaken [OF conjunct1 [OF pk] L1]] .
    show ?thesis
    proof (cases r2)
      case (Resolved f')
      with run n None p have r: "hboolShould std h2 b s f' = (r, h')"
        by (simp add: hboolMustNot_def)
      have s2: "okv L h2 s" using okv_frame [OF _ conjunct1 [OF pk], of L s L] st s by simp
      have f': "okv L h2 f'" using pk Resolved okv_weaken [OF _ L1] by blast
      have L2: "L \<le> length h2" using L1 frame_length [OF conjunct1 [OF pk]] by simp
      from hboolShould_ok [OF good s2 f' L2 r] frame_trans [OF f2] show ?thesis by blast
    next
      case (Rejected e)
      with run n None p f2 show ?thesis by (auto simp: hboolMustNot_def)
    next
      case (Thrown e)
      with run n None p f2 show ?thesis by (auto simp: hboolMustNot_def)
    qed
  qed
qed

lemma hboolMust_ok:
  assumes good: "goodStd std" and s0: "okv L h s0" and f: "okv L h f" and L: "L \<le> length h"
    and run: "hboolMust std h b s0 f = (r, h')"
  shows "frame L h h' \<and> (\<forall>x. r = Resolved x \<longrightarrow> okv L h' x)"
proof -
  obtain r2 h2 where p: "hpart ''or'' std h b ''must_not'' = (r2, h2)"
    by (cases "hpart ''or'' std h b ''must_not''")
  note pk = hpart_ok [OF good p]
  have f2: "frame L h h2" using frame_weaken [OF conjunct1 [OF pk] L] .
  show ?thesis
  proof (cases r2)
    case (Resolved f')
    let ?s = "if htruthy f then f else s0"
    from run p Resolved have r: "hboolMustNot std h2 b ?s f' = (r, h')"
      by (simp add: hboolMust_def)
    have s: "okv L h ?s" using s0 f by simp
    have s2: "okv L h2 ?s" using okv_frame [OF s conjunct1 [OF pk], of L] by simp
    have f': "okv L h2 f'" using pk Resolved okv_weaken [OF _ L] by blast
    have L2: "L \<le> length h2" using L frame_length [OF conjunct1 [OF pk]] by simp
    from hboolMustNot_ok [OF good s2 f' L2 r] frame_trans [OF f2] show ?thesis by blast
  next
    case (Rejected e)
    with run p f2 show ?thesis by (auto simp: hboolMust_def)
  next
    case (Thrown e)
    with run p f2 show ?thesis by (auto simp: hboolMust_def)
  qed
qed

lemma hbool_ok:
  assumes good: "goodStd std" and run: "hbool std h flt = (r, h')"
  shows "frame (length h) h h' \<and> (\<forall>x. r = Resolved x \<longrightarrow> okv (length h) h' x)"
proof -
  let ?L = "length h"
  let ?b = "hprop h flt ''bool''"
  obtain arr h1 where a1: "alloc h (CArr []) = (arr, h1)" by (cases "alloc h (CArr [])")
  let ?c = "CObj [(''and'', arr), (''_isLeaf'', HBool True)]"
  obtain s0 h2 where a2: "alloc h1 ?c = (s0, h2)" by (cases "alloc h1 ?c")
  from length_alloc [OF a1] length_alloc [OF a2]
  have len: "length h1 = Suc ?L" "length h2 = Suc (Suc ?L)" by simp_all
  have arr: "okv ?L h1 arr" by (rule okv_alloc_new [OF a1]) simp_all
  have s0: "okv ?L h2 s0"
    using okv_alloc_new [OF a2, of ?L] arr len by (auto intro: okv_prim)
  have f2: "frame ?L h h2" using frame_trans [OF frame_alloc [OF a1] frame_alloc [OF a2]] .
  have L2: "?L \<le> length h2" by (simp add: len)
  show ?thesis
  proof (cases "\<exists>flds. hmustBeNonEmptyObject h ?b ''bool'' = Resolved flds
      \<and> \<not> list_ex (\<lambda>f. f \<notin> set [''must'', ''must_not'', ''should'', ''should_not'']) flds")
    case False
    with run a1 a2 have "h' = h2 \<and> (\<forall>x. r \<noteq> Resolved x)"
      by (auto simp: hbool_def Let_def split: outcome.splits if_splits)
    with f2 show ?thesis by simp
  next
    case True
    obtain r3 h3 where p: "hpart ''and'' std h2 ?b ''must'' = (r3, h3)"
      by (cases "hpart ''and'' std h2 ?b ''must''")
    note pk = hpart_ok [OF good p]
    have f3: "frame ?L h h3" using frame_trans [OF f2 frame_weaken [OF conjunct1 [OF pk] L2]] .
    show ?thesis
    proof (cases r3)
      case (Resolved f)
      with run a1 a2 True p have r: "hboolMust std h3 ?b s0 f = (r, h')"
        by (auto simp: hbool_def Let_def)
      have s3: "okv ?L h3 s0" using okv_frame [OF s0 conjunct1 [OF pk], of ?L] by simp
      have f': "okv ?L h3 f" using pk Resolved okv_weaken [OF _ L2] by blast
      have L3: "?L \<le> length h3" using L2 frame_length [OF conjunct1 [OF pk]] by simp
      from hboolMust_ok [OF good s3 f' L3 r] frame_trans [OF f3] show ?thesis by blast
    next
      case (Rejected e)
      with run a1 a2 True p f3 show ?thesis by (auto simp: hbool_def Let_def)
    next
      case (Thrown e)
      with run a1 a2 True p f3 show ?thesis by (auto simp: hbool_def Let_def)
    qed
  qed
qed

subsection \<open>The leaf predicates and the entry point\<close>

lemma build_ok:
  "\<forall>y h'. build x h = (y, h') \<longrightarrow> frame (length h) h h' \<and> okv (length h) h' y"
  "\<forall>ys h'. buildList xs h = (ys, h')
      \<longrightarrow> frame (length h) h h' \<and> (\<forall>y\<in>set ys. okv (length h) h' y)"
  "\<forall>fs h'. buildFields kvs h = (fs, h')
      \<longrightarrow> frame (length h) h h' \<and> (\<forall>y\<in>set (map snd fs). okv (length h) h' y)"
proof (induction x h and xs h and kvs h rule: build_buildList_buildFields.induct)
  case (7 xs h)
  show ?case
  proof (intro allI impI)
    fix y h' assume b: "build (JArr xs) h = (y, h')"
    obtain ys h1 where l: "buildList xs h = (ys, h1)" by (cases "buildList xs h")
    with b have a: "alloc h1 (CArr ys) = (y, h')" by simp
    from 7 l have ih: "frame (length h) h h1" "\<forall>y\<in>set ys. okv (length h) h1 y" by simp_all
    have "okv (length h) h' y"
      by (rule okv_alloc_new [OF a frame_length [OF ih(1)]]) (use ih(2) in simp)
    with frame_trans [OF ih(1) frame_alloc [OF a]]
    show "frame (length h) h h' \<and> okv (length h) h' y" by simp
  qed
next
  case (8 kvs h)
  show ?case
  proof (intro allI impI)
    fix y h' assume b: "build (JObj kvs) h = (y, h')"
    obtain fs h1 where l: "buildFields kvs h = (fs, h1)" by (cases "buildFields kvs h")
    with b have a: "alloc h1 (CObj fs) = (y, h')" by simp
    from 8 l have ih: "frame (length h) h h1" "\<forall>y\<in>set (map snd fs). okv (length h) h1 y"
      by simp_all
    have "okv (length h) h' y"
      by (rule okv_alloc_new [OF a frame_length [OF ih(1)]]) (use ih(2) in auto)
    with frame_trans [OF ih(1) frame_alloc [OF a]]
    show "frame (length h) h h' \<and> okv (length h) h' y" by simp
  qed
next
  case (10 x xs h)
  show ?case
  proof (intro allI impI)
    fix zs h' assume b: "buildList (x # xs) h = (zs, h')"
    obtain y h1 where x: "build x h = (y, h1)" by (cases "build x h")
    obtain ys h2 where l: "buildList xs h1 = (ys, h2)" by (cases "buildList xs h1")
    from b x l have e: "zs = y # ys" "h' = h2" by simp_all
    from 10(1) x have i1: "frame (length h) h h1" "okv (length h) h1 y" by simp_all
    from 10(2) [OF x [symmetric] refl] l
    have i2: "frame (length h1) h1 h2" "\<forall>y\<in>set ys. okv (length h1) h2 y" by simp_all
    have le: "length h \<le> length h1" by (rule frame_length [OF i1(1)])
    have "okv (length h) h2 y" using okv_frame [OF i1(2) i2(1)] by simp
    moreover have "\<forall>y\<in>set ys. okv (length h) h2 y" using i2(2) okv_weaken [OF _ le] by blast
    ultimately show "frame (length h) h h' \<and> (\<forall>y\<in>set zs. okv (length h) h' y)"
      using frame_trans [OF i1(1) frame_weaken [OF i2(1) le]] e by simp
  qed
next
  case (12 k x kvs h)
  show ?case
  proof (intro allI impI)
    fix zs h' assume b: "buildFields ((k, x) # kvs) h = (zs, h')"
    obtain y h1 where x: "build x h = (y, h1)" by (cases "build x h")
    obtain fs h2 where l: "buildFields kvs h1 = (fs, h2)" by (cases "buildFields kvs h1")
    from b x l have e: "zs = (k, y) # fs" "h' = h2" by simp_all
    from 12(1) x have i1: "frame (length h) h h1" "okv (length h) h1 y" by simp_all
    from 12(2) [OF x [symmetric] refl] l
    have i2: "frame (length h1) h1 h2" "\<forall>y\<in>set (map snd fs). okv (length h1) h2 y"
      by simp_all
    have le: "length h \<le> length h1" by (rule frame_length [OF i1(1)])
    have "okv (length h) h2 y" using okv_frame [OF i1(2) i2(1)] by simp
    moreover have "\<forall>y\<in>set (map snd fs). okv (length h) h2 y"
      using i2(2) okv_weaken [OF _ le] by blast
    ultimately show "frame (length h) h h' \<and> (\<forall>y\<in>set (map snd zs). okv (length h) h' y)"
      using frame_trans [OF i1(1) frame_weaken [OF i2(1) le]] e by simp
  qed
qed (auto intro: okv_prim)

lemma hfresh_ok:
  assumes "hfresh validator d h v = (r, h')"
  shows "frame (length h) h h' \<and> (\<forall>x. r = Resolved x \<longrightarrow> okv (length h) h' x)"
proof (cases "validator (load d h v)")
  case (Resolved t)
  obtain x h1 where b: "build t h = (x, h1)" by (cases "build t h")
  with assms Resolved have "r = Resolved x" "h' = h1" by (simp_all add: hfresh_def)
  with build_ok(1) [of t h] b show ?thesis by simp
next
  case (Rejected e)
  with assms show ?thesis by (auto simp: hfresh_def)
next
  case (Thrown e)
  with assms show ?thesis by (auto simp: hfresh_def)
qed

lemma hpass_ok:
  assumes "hpass validator d h v = (r, h')"
  shows "h' = h \<and> (\<forall>x. r = Resolved x \<longrightarrow> x = v)"
  using assms by (cases "validator (load d h v)") (auto simp: hpass_def)

lemma hkeys_passLike:
  assumes "hkeys h v = [k]" "k \<in> set [''exists'', ''equals'', ''range'', ''regexp'']"
  shows "\<exists>a. v = HRef a \<and> passLike h a"
proof (cases v)
  case (HRef a)
  show ?thesis
  proof (cases "a < length h")
    case True
    show ?thesis
    proof (cases "h ! a")
      case (CObj kvs)
      with assms True HRef have "map fst kvs = [k]" by (simp add: hkeys_def cellAt_def)
      then obtain x where "kvs = [(k, x)]" by (cases kvs) auto
      with CObj True HRef assms(2) show ?thesis by (simp add: passLike_def)
    next
      case (CArr xs)
      with assms(1) True HRef have "map show_nat [0..<length xs] = [k]"
        by (simp add: hkeys_def cellAt_def)
      then have "k = ''0''"
        by (cases xs) (auto simp: upt_conv_Cons simp del: upt_Suc show_nat.simps)
      with assms(2) show ?thesis by simp
    qed
  next
    case False
    with assms(1) HRef show ?thesis by (simp add: hkeys_def cellAt_def)
  qed
next
  case (HStr s)
  with assms(1) have "map show_nat [0..<length s] = [k]" by (simp add: hkeys_def cellAt_def)
  then have "k = ''0''"
    by (cases s) (auto simp: upt_conv_Cons simp del: upt_Suc show_nat.simps)
  with assms(2) show ?thesis by simp
qed (use assms(1) in \<open>simp_all add: hkeys_def cellAt_def\<close>)

lemma hdispatch_ok:
  assumes good: "goodStd std" and keys: "hkeys h filters = [k]"
    and run: "hdispatch E std d k h filters = (r, h')"
  shows "frame (length h) h h' \<and> (\<forall>x. r = Resolved x \<longrightarrow> okv (length h) h' x)"
proof -
  consider (pass) "k \<in> set [''exists'', ''equals'', ''range'', ''regexp'']"
    | (fresh) "k \<in> set [''ids'', ''missing'', ''in'', ''geoBoundingBox'', ''geoDistance'',
         ''geoDistanceRange'', ''geoPolygon'']"
    | (conj) "k = ''and''" | (disj) "k = ''or''" | (neg) "k = ''not''" | (bool) "k = ''bool''"
    | (array) "k = ''_standardizeFilterArray''"
    | (other) "k \<notin> set [''exists'', ''equals'', ''range'', ''regexp'', ''ids'', ''missing'',
         ''in'', ''geoBoundingBox'', ''geoDistance'', ''geoDistanceRange'', ''geoPolygon'',
         ''and'', ''or'', ''not'', ''bool'', ''_standardizeFilterArray'']"
    by auto
  then show ?thesis
  proof cases
    case pass
    with run obtain validator where "hpass validator d h filters = (r, h')"
      by (auto simp: hdispatch_def)
    from hpass_ok [OF this] hkeys_passLike [OF keys pass] show ?thesis
      by (auto intro: okv_passLike)
  next
    case fresh
    with run obtain validator where "hfresh validator d h filters = (r, h')"
      by (auto simp: hdispatch_def)
    from hfresh_ok [OF this] show ?thesis .
  next
    case conj
    with run have "hand std h filters ''and'' = (r, h')" by (simp add: hdispatch_def)
    from hand_ok [OF good this] show ?thesis .
  next
    case disj
    with run have "hor std h filters ''or'' = (r, h')" by (simp add: hdispatch_def)
    from hor_ok [OF good this] show ?thesis .
  next
    case neg
    with run have "hnot std h filters = (r, h')" by (simp add: hdispatch_def)
    from hnot_ok [OF good this] show ?thesis .
  next
    case bool
    with run have "hbool std h filters = (r, h')" by (simp add: hdispatch_def)
    from hbool_ok [OF good this] show ?thesis .
  next
    case array
    with run have "hstandardizeFilterArray std h filters ''undefined'' = (r, h')"
      by (simp add: hdispatch_def)
    from hstandardizeFilterArray_ok [OF good _ this] show ?thesis by simp
  next
    case other
    with run have "h' = h \<and> (\<forall>x. r = Resolved x \<longrightarrow> (\<forall>a. x \<noteq> HRef a))"
      by (auto simp: hdispatch_def split: if_splits)
    then show ?thesis by (auto intro: okv_prim)
  qed
qed

lemma hstandardize_good: "goodStd (hstandardize n E d)"
proof (induction n)
  case 0
  show ?case by (simp add: goodStd_def)
next
  case (Suc n)
  show ?case unfolding goodStd_def
  proof (intro allI impI)
    fix h v r h'
    assume run: "hstandardize (Suc n) E d h v = (r, h')"
    let ?ks = "if htruthy v then hkeys h v else []"
    consider (none) "?ks = []" | (one) k where "?ks = [k]" | (more) "length ?ks > 1"
      by (cases ?ks rule: list.exhaust; cases "tl ?ks") auto
    then show "frame (length h) h h' \<and> (\<forall>x. r = Resolved x \<longrightarrow> okv (length h) h' x)"
    proof cases
      case none
      obtain x h1 where a: "alloc h (CObj []) = (x, h1)" by (cases "alloc h (CObj [])")
      with run none have e: "r = Resolved x" "h' = h1" by (simp_all add: Let_def)
      have "okv (length h) h1 x" by (rule okv_alloc_new [OF a]) simp_all
      with frame_alloc [OF a] e show ?thesis by simp
    next
      case one
      then have k: "hkeys h v = [k]" by (simp split: if_splits)
      from run one have "hdispatch E (hstandardize n E d) d k h v = (r, h')"
        by (simp add: Let_def)
      from hdispatch_ok [OF Suc k this] show ?thesis .
    next
      case more
      then have "htruthy v" "hkeys h v \<noteq> []" "length (hkeys h v) > 1"
        by (auto split: if_splits)
      with run have "h' = h \<and> (\<forall>x. r \<noteq> Resolved x)" by (auto simp: Let_def)
      then show ?thesis by simp
    qed
  qed
qed

subsection \<open>The input is not modified\<close>

text \<open>
  Claim C9. Whatever the filter, the store after a call of \<^verbatim>\<open>standardize\<close> begins with the
  store before it: every object and array that exists when the call is made, those of the
  input among them, has after the call the content it had before, whether the call
  resolves, rejects or throws, and whether or not the result is an object of the input.
  What the call writes to are objects and arrays it has allocated itself.
\<close>

theorem standardize_keeps_input:
  "take (length h) (snd (hstandardize n E d h filters)) = h"
proof -
  obtain r h' where run: "hstandardize n E d h filters = (r, h')"
    by (cases "hstandardize n E d h filters")
  from hstandardize_good [of n E d] run have "frame (length h) h h'"
    unfolding goodStd_def by blast
  then have "length h \<le> length h'" "\<forall>a<length h. h' ! a = h ! a"
    by (simp_all add: frame_def)
  then have "take (length h) h' = h" by (intro nth_equalityI) simp_all
  with run show ?thesis by simp
qed

text \<open>
  An instance: the store holds \<^verbatim>\<open>a = {exists: {field: "a"}}\<close> at address 1,
  \<^verbatim>\<open>b = {exists: {field: "b"}}\<close> at address 3 and \<^verbatim>\<open>{bool: {must: [a, b], should: [a]}}\<close> at
  address 7.
\<close>

definition sampleStore :: heap where
  "sampleStore =
     [CObj [(''field'', HStr ''a'')], CObj [(''exists'', HRef 0)],
      CObj [(''field'', HStr ''b'')], CObj [(''exists'', HRef 2)],
      CArr [HRef 1, HRef 3], CArr [HRef 1],
      CObj [(''must'', HRef 4), (''should'', HRef 5)], CObj [(''bool'', HRef 6)]]"

theorem standardize_keeps_input_witness:
  "take (length sampleStore) (snd (hstandardize 2 sampleEnv 3 sampleStore (HRef 7)))
     = sampleStore"
  using standardize_keeps_input [of sampleStore 2 sampleEnv 3 "HRef 7"] .

text \<open>
  On that store \<^verbatim>\<open>exists\<close> hands back the object it was given, and \<^verbatim>\<open>bool\<close> gives a new
  node whose items are the objects \<^verbatim>\<open>a\<close>, \<^verbatim>\<open>b\<close> and \<^verbatim>\<open>a\<close> of the input; read as a tree, it
  is what the functional model gives on the tree of the input.
\<close>

lemma exists_returns_its_argument:
  "hstandardize 1 sampleEnv 3 sampleStore (HRef 1) = (Resolved (HRef 1), sampleStore)"
  by code_simp

lemma bool_result_shares_the_input:
  "hstandardize 2 sampleEnv 3 sampleStore (HRef 7)
     = (Resolved (HRef 12),
        sampleStore @
        [CArr [], CObj [(''and'', HRef 8), (''_isLeaf'', HBool True)],
         CObj [(''and'', HRef 4)], CArr [HRef 1, HRef 3],
         CObj [(''and'', HRef 16), (''_isLeaf'', HBool False)],
         CObj [(''or'', HRef 5)], CArr [HRef 1],
         CObj [(''or'', HRef 14), (''_isLeaf'', HBool True)],
         CArr [HRef 1, HRef 3, HRef 1]])"
  by code_simp

lemma bool_result_as_a_tree:
  "standardize sampleEnv (load 6 sampleStore (HRef 7))
     = Resolved (load 6 (snd (hstandardize 2 sampleEnv 3 sampleStore (HRef 7))) (HRef 12))"
  by code_simp

end
